theory Spec2Isabelle
  imports Complex_Main "HOL-Library.Stream" "HOL-Library.Monad_Syntax"
begin

section \<open>Constants and the data model\<close>

text \<open>
  The game core is the class \<open>Tetris\<close>. JavaScript numbers that hold grid coordinates are
  modelled as \<open>int\<close>, counts and indices as \<open>nat\<close>, and every other number (times, pixel
  positions, pinch distances, angles) as \<open>real\<close>: doubles are idealised as real numbers.
\<close>

definition COLS :: nat where "COLS = 10"
definition ROWS :: nat where "ROWS = 20"
definition CELL_SIZE :: real where "CELL_SIZE = 24"
definition SPAWN_ZONE_HEIGHT :: real where "SPAWN_ZONE_HEIGHT = 220"
definition SPAWN_TICKS :: nat where "SPAWN_TICKS = 6"
definition HOLD_SLOT_HEIGHT :: real where "HOLD_SLOT_HEIGHT = 70"
definition HOLD_SLOT_WIDTH :: real where "HOLD_SLOT_WIDTH = 90"
definition MAX_PER_HOLD :: nat where "MAX_PER_HOLD = 3"
definition HOLD_SPAWN_DELAY :: real where "HOLD_SPAWN_DELAY = 2000"

text \<open>The seven keys of \<open>SHAPES\<close>, in the order of \<open>Object.keys(SHAPES)\<close>.\<close>

datatype tetromino = Tet_I | Tet_O | Tet_T | Tet_S | Tet_Z | Tet_J | Tet_L

fun SHAPES :: "tetromino \<Rightarrow> nat list list" where
  "SHAPES Tet_I = [[1, 1, 1, 1]]"
| "SHAPES Tet_O = [[1, 1], [1, 1]]"
| "SHAPES Tet_T = [[0, 1, 0], [1, 1, 1]]"
| "SHAPES Tet_S = [[0, 1, 1], [1, 1, 0]]"
| "SHAPES Tet_Z = [[1, 1, 0], [0, 1, 1]]"
| "SHAPES Tet_J = [[1, 0, 0], [1, 1, 1]]"
| "SHAPES Tet_L = [[0, 0, 1], [1, 1, 1]]"

fun SHAPE_COLORS :: "tetromino \<Rightarrow> string" where
  "SHAPE_COLORS Tet_I = ''#00CED1''"
| "SHAPE_COLORS Tet_O = ''#FFD700''"
| "SHAPE_COLORS Tet_T = ''#9370DB''"
| "SHAPE_COLORS Tet_S = ''#32CD32''"
| "SHAPE_COLORS Tet_Z = ''#FF6347''"
| "SHAPE_COLORS Tet_J = ''#4169E1''"
| "SHAPE_COLORS Tet_L = ''#FF8C00''"

datatype INTERACTION_STATES = IDLE | TARGETING | GRABBING | DRAGGING

datatype hand_side = Left | Right

text \<open>
  A board cell is \<open>0\<close> (here \<open>None\<close>) or the type tag of the piece locked there. Pieces are
  JavaScript objects that several places refer to at once (the active piece, the hold stacks,
  the two hands' targets) and that are compared by identity, so they live in a store indexed
  by references; a reference is a natural number.
\<close>

type_synonym cell = "tetromino option"
type_synonym board = "cell list list"
type_synonym ref = nat

record piece =
  ptype :: tetromino
  shape :: "nat list list"
  px :: int
  py :: int
  color :: string
  isGrabbed :: bool
  inPlayZone :: bool
  screenX :: real
  screenY :: real
  targetScreenX :: real
  targetScreenY :: real

record hold =
  pieces :: "ref list"
  htype :: "tetromino option"
  hx :: real
  hy :: real
  isTargeted :: bool
  side :: hand_side

record interaction =
  istate :: INTERACTION_STATES
  target :: "ref option"
  grabOffset :: "(real \<times> real) option"
  smoothedPos :: "(real \<times> real) option"
  grabAngle :: "real option"
  lastRotateTime :: real
  isPlayZoneGrab :: bool
  grabX :: real
  lastMoveTime :: real
  currentRotation :: "int option"
  circleAngle :: "real option"
  circleRadius :: "real option"
  pieceCenter :: "(real \<times> real) option"

record layout =
  offsetX :: real
  offsetY :: real
  spawnZoneTop :: real
  spawnZoneBottom :: real
  holdX :: real
  holdY :: real
  holdLeftX :: real
  holdRightX :: real

text \<open>
  The fields of \<open>Tetris\<close>, the piece store with its allocation counter, and the stream of
  draws \<open>types[Math.floor(Math.random() * types.length)]\<close> that \<open>spawnPiece\<close> consumes.
\<close>

record game =
  board :: board
  boardWidth :: real
  boardHeight :: real
  currentPiece :: "ref option"
  lastDropTime :: real
  dropInterval :: real
  holds :: "hold list"
  lastHoldTime :: real
  pendingSpawn :: bool
  interLeft :: interaction
  interRight :: interaction
  layout :: layout
  isDraggingPiece :: bool
  draggedPiece :: "ref option"
  store :: "ref \<Rightarrow> piece"
  nextRef :: ref
  rng :: "tetromino stream"

section \<open>Board and piece model\<close>

definition emptyRow :: "cell list" where
  "emptyRow = replicate COLS None"

definition createEmptyBoard :: board where
  "createEmptyBoard = replicate ROWS emptyRow"

text \<open>
  \<open>this.board[y][x]\<close> as a truth value. Every read in the source is guarded by
  \<open>0 \<le> x < COLS\<close> and \<open>0 \<le> y < ROWS\<close>, and the board always has \<open>ROWS\<close> rows of \<open>COLS\<close>
  cells (lemma \<open>clearLines_length\<close> and \<open>lockCells_dims\<close> below); outside that range the
  model reads an empty cell.
\<close>

definition occupied :: "board \<Rightarrow> int \<Rightarrow> int \<Rightarrow> bool" where
  "occupied b y x =
     (0 \<le> y \<and> 0 \<le> x \<and> nat y < length b \<and> nat x < length (b ! nat y) \<and> b ! nat y ! nat x \<noteq> None)"

text \<open>The test applied to one filled cell of a shape in \<open>canPlace\<close> and \<open>canMove\<close>.\<close>

definition cellFree :: "board \<Rightarrow> int \<Rightarrow> int \<Rightarrow> bool" where
  "cellFree b boardX boardY =
     (if boardX < 0 \<or> boardX \<ge> int COLS \<or> boardY \<ge> int ROWS then False
      else if boardY \<ge> 0 \<and> occupied b boardY boardX then False
      else True)"

text \<open>The two nested loops over the shape matrix, with their early \<open>return false\<close>.\<close>

definition shapeFits :: "board \<Rightarrow> nat list list \<Rightarrow> int \<Rightarrow> int \<Rightarrow> bool" where
  "shapeFits b sh x0 y0 =
     list_all (\<lambda>(row, r).
        list_all (\<lambda>(col, v). if v \<noteq> 0 then cellFree b (x0 + int col) (y0 + int row) else True)
          (enumerate 0 r))
       (enumerate 0 sh)"

definition canPlace :: "board \<Rightarrow> piece \<Rightarrow> bool" where
  "canPlace b p = shapeFits b (shape p) (px p) (py p)"

definition canMove :: "game \<Rightarrow> int \<Rightarrow> int \<Rightarrow> bool" where
  "canMove s dx dy =
     (case currentPiece s of
        None \<Rightarrow> False
      | Some r \<Rightarrow> shapeFits (board s) (shape (store s r)) (px (store s r) + dx) (py (store s r) + dy))"

text \<open>
  \<open>shape[0].length\<close>. A shape is never empty (it is one of \<open>SHAPES\<close> or a rotation of one,
  lemma \<open>rotateShape_rect\<close>); for the empty matrix, where the source would throw, the model
  takes the width \<open>0\<close>.
\<close>

definition width0 :: "nat list list \<Rightarrow> nat" where
  "width0 sh = (case sh of [] \<Rightarrow> 0 | r0 # _ \<Rightarrow> length r0)"

text \<open>
  The rotation loops of \<open>rotatePiece\<close>: row \<open>col\<close> of the result lists column \<open>col\<close> of the
  shape from the last row up.
\<close>

definition rotateShape :: "nat list list \<Rightarrow> nat list list" where
  "rotateShape sh =
     (let rows = length sh; cols = width0 sh
      in map (\<lambda>col. map (\<lambda>row. sh ! row ! col) (rev [0..<rows])) [0..<cols])"

text \<open>The wall-kick loop: \<open>piece.x += kick\<close>, test, \<open>break\<close> or \<open>piece.x -= kick\<close>.\<close>

fun tryKicks :: "board \<Rightarrow> piece \<Rightarrow> int list \<Rightarrow> piece \<times> bool" where
  "tryKicks b p [] = (p, False)"
| "tryKicks b p (kick # kicks) =
     (let p1 = p\<lparr>px := px p + kick\<rparr>
      in if canPlace b p1 then (p1, True)
         else tryKicks b (p1\<lparr>px := px p1 - kick\<rparr>) kicks)"

definition kicks :: "int list" where
  "kicks = [-1, 1, -2, 2]"

text \<open>The body of \<open>rotatePiece\<close> for a piece object that is not null.\<close>

definition rotateObj :: "board \<Rightarrow> piece \<Rightarrow> piece" where
  "rotateObj b p =
     (if ptype p = Tet_O then p
      else
        let oldShape = shape p;
            p1 = p\<lparr>shape := rotateShape (shape p)\<rparr>
        in if \<not> canPlace b p1 then
             (case tryKicks b p1 kicks of
                (p2, valid) \<Rightarrow> if \<not> valid then p2\<lparr>shape := oldShape\<rparr> else p2)
           else p1)"

text \<open>A mutation of the piece object behind a reference.\<close>

definition updPiece :: "ref \<Rightarrow> (piece \<Rightarrow> piece) \<Rightarrow> game \<Rightarrow> game" where
  "updPiece r f s = s\<lparr>store := (store s)(r := f (store s r))\<rparr>"

definition rotatePiece :: "game \<Rightarrow> ref option \<Rightarrow> game" where
  "rotatePiece s piece =
     (case piece of
        None \<Rightarrow> s
      | Some r \<Rightarrow> updPiece r (rotateObj (board s)) s)"

text \<open>
  \<open>lockPiece\<close> writes the type tag at every filled cell whose row is on the board. The
  column is in range whenever the piece stands where \<open>canPlace\<close> or \<open>canMove\<close> accepted it;
  a write outside the row is dropped by the model.
\<close>

definition setCell :: "board \<Rightarrow> int \<Rightarrow> int \<Rightarrow> tetromino \<Rightarrow> board" where
  "setCell b boardY boardX t =
     (if boardY \<ge> 0 \<and> boardY < int ROWS \<and> boardX \<ge> 0 \<and> nat boardY < length b
      then b[nat boardY := (b ! nat boardY)[nat boardX := Some t]]
      else b)"

definition lockCells :: "board \<Rightarrow> piece \<Rightarrow> board" where
  "lockCells b p =
     fold (\<lambda>(row, r) b1.
        fold (\<lambda>(col, v) b2. if v \<noteq> 0 then setCell b2 (py p + int row) (px p + int col) (ptype p) else b2)
          (enumerate 0 r) b1)
       (enumerate 0 (shape p)) b"

definition lockPiece :: "game \<Rightarrow> game" where
  "lockPiece s =
     (case currentPiece s of
        None \<Rightarrow> s
      | Some r \<Rightarrow> s\<lparr>board := lockCells (board s) (store s r)\<rparr>)"

text \<open>
  \<open>clearLines\<close>: the scan from row \<open>ROWS - 1\<close> down to row \<open>0\<close>. A full row is spliced out,
  an empty row is unshifted, and \<open>row++\<close> followed by the loop's \<open>row--\<close> examines the same
  index again. The counter is kept one above the row index, so that the loop ends at \<open>0\<close>.
\<close>

definition rowFull :: "cell list \<Rightarrow> bool" where
  "rowFull r = list_all (\<lambda>c. c \<noteq> None) r"

definition splice1 :: "nat \<Rightarrow> 'a list \<Rightarrow> 'a list" where
  "splice1 i xs = take i xs @ drop (Suc i) xs"

function clearLinesFrom :: "nat \<Rightarrow> board \<Rightarrow> board" where
  "clearLinesFrom 0 b = b"
| "clearLinesFrom (Suc row) b =
     (if row < length b \<and> rowFull (b ! row)
      then clearLinesFrom (Suc row) (emptyRow # splice1 row b)
      else clearLinesFrom row b)"
  by pat_completeness auto

lemma emptyRow_not_full: "\<not> rowFull emptyRow"
  by (simp add: rowFull_def emptyRow_def COLS_def list_all_iff)

lemma filter_splice1_less:
  assumes "i < length xs" and "P (xs ! i)"
  shows "length (filter P (splice1 i xs)) < length (filter P xs)"
proof -
  have "xs = take i xs @ xs ! i # drop (Suc i) xs"
    using assms(1) by (rule id_take_nth_drop)
  then have "filter P xs = filter P (take i xs) @ xs ! i # filter P (drop (Suc i) xs)"
    using assms(2) by (metis filter.simps(2) filter_append)
  then show ?thesis
    by (simp add: splice1_def)
qed

termination clearLinesFrom
  by (relation "measures [\<lambda>(row, b). length (filter rowFull b), \<lambda>(row, b). row]")
     (auto simp: emptyRow_not_full filter_splice1_less)

definition clearLines :: "game \<Rightarrow> game" where
  "clearLines s = s\<lparr>board := clearLinesFrom ROWS (board s)\<rparr>"

section \<open>Spawning and gravity\<close>

text \<open>
  \<open>spawnPiece\<close> allocates a new piece object. The random draw is the head of the stream
  \<open>rng\<close>; \<open>Math.floor((COLS - w) / 2)\<close> is integer division, which rounds down.
\<close>

definition centerX0 :: "nat list list \<Rightarrow> int" where
  "centerX0 sh = (int COLS - int (width0 sh)) div 2"

definition spawnY :: "nat list list \<Rightarrow> int" where
  "spawnY sh = - int SPAWN_TICKS - int (length sh)"

definition newPiece :: "tetromino \<Rightarrow> piece" where
  "newPiece t =
     \<lparr>ptype = t, shape = SHAPES t, px = centerX0 (SHAPES t), py = spawnY (SHAPES t),
      color = SHAPE_COLORS t, isGrabbed = False, inPlayZone = False,
      screenX = 0, screenY = 0, targetScreenX = 0, targetScreenY = 0\<rparr>"

definition spawnPiece :: "game \<Rightarrow> game" where
  "spawnPiece s =
     s\<lparr>currentPiece := Some (nextRef s),
       store := (store s)(nextRef s := newPiece (shd (rng s))),
       nextRef := Suc (nextRef s),
       rng := stl (rng s)\<rparr>"

definition incY :: "ref \<Rightarrow> game \<Rightarrow> game" where
  "incY r s = updPiece r (\<lambda>p. p\<lparr>py := py p + 1\<rparr>) s"

definition dropPiece :: "game \<Rightarrow> game" where
  "dropPiece s =
     (case currentPiece s of
        None \<Rightarrow> s
      | Some r \<Rightarrow>
          if isGrabbed (store s r) then s
          else if py (store s r) < 0 then
            (let s1 = incY r s
             in if py (store s1 r) \<ge> 0 then updPiece r (\<lambda>p. p\<lparr>inPlayZone := True\<rparr>) s1 else s1)
          else if canMove s 0 1 then incY r s
          else spawnPiece (clearLines (lockPiece s)))"

text \<open>
  \<open>hardDrop\<close>: the loop \<open>while (this.canMove(0, 1)) this.currentPiece.y++\<close> need not end
  (it runs forever on a shape without a filled cell), so it is a partial function and
  \<open>hardDrop\<close> returns \<open>None\<close> when the loop does not return.
\<close>

partial_function (option) hardDropLoop :: "game \<Rightarrow> game option" where
  "hardDropLoop s =
     (if canMove s 0 1
      then hardDropLoop (case currentPiece s of None \<Rightarrow> s | Some r \<Rightarrow> incY r s)
      else Some s)"

definition hardDrop :: "game \<Rightarrow> game option" where
  "hardDrop s =
     (case currentPiece s of
        None \<Rightarrow> Some s
      | Some r \<Rightarrow> do {
          s1 \<leftarrow> hardDropLoop s;
          Some (spawnPiece (clearLines (lockPiece s1)))
        })"

section \<open>Hold inventory and drop resolution\<close>

definition inHoldBounds :: "hold \<Rightarrow> real \<Rightarrow> real \<Rightarrow> bool" where
  "inHoldBounds h x y =
     (x \<ge> hx h - 10 \<and> x \<le> hx h + HOLD_SLOT_WIDTH + 10 \<and>
      y \<ge> hy h - 10 \<and> y \<le> hy h + HOLD_SLOT_HEIGHT + 10)"

definition canAdd :: "hold \<Rightarrow> tetromino \<Rightarrow> bool" where
  "canAdd h t = (length (pieces h) < MAX_PER_HOLD \<and> (htype h = None \<or> htype h = Some t))"

text \<open>
  \<open>hold.pieces.splice(hold.pieces.indexOf(piece), 1)\<close> followed by the reset of the type tag
  of an emptied slot.
\<close>

definition removeFrom :: "ref \<Rightarrow> hold \<Rightarrow> hold" where
  "removeFrom piece h =
     (let ps = remove1 piece (pieces h)
      in h\<lparr>pieces := ps, htype := (if ps = [] then None else htype h)\<rparr>)"

fun removeFromHoldList :: "ref \<Rightarrow> hold list \<Rightarrow> hold list" where
  "removeFromHoldList piece [] = []"
| "removeFromHoldList piece (h # hs) =
     (if piece \<in> set (pieces h) then removeFrom piece h # hs
      else h # removeFromHoldList piece hs)"

definition removeFromHolds :: "game \<Rightarrow> ref \<Rightarrow> game" where
  "removeFromHolds s piece = s\<lparr>holds := removeFromHoldList piece (holds s)\<rparr>"

text \<open>The index of the hold that \<open>findHoldContaining\<close> returns, if any.\<close>

definition findHoldContaining :: "game \<Rightarrow> ref \<Rightarrow> nat option" where
  "findHoldContaining s piece =
     find (\<lambda>i. piece \<in> set (pieces (holds s ! i))) [0..<length (holds s)]"

text \<open>The first hold, in the order of \<open>this.holds\<close>, whose bounds contain the drop point.\<close>

definition firstHoldAt :: "game \<Rightarrow> real \<Rightarrow> real \<Rightarrow> nat option" where
  "firstHoldAt s x y = find (\<lambda>i. inHoldBounds (holds s ! i) x y) [0..<length (holds s)]"

definition pushHold :: "nat \<Rightarrow> ref \<Rightarrow> game \<Rightarrow> game" where
  "pushHold i piece s =
     s\<lparr>holds := (holds s)[i := (holds s ! i)\<lparr>pieces := pieces (holds s ! i) @ [piece],
                                              htype := Some (ptype (store s piece))\<rparr>]\<rparr>"

definition inSpawnZone :: "game \<Rightarrow> real \<Rightarrow> real \<Rightarrow> bool" where
  "inSpawnZone s x y =
     (x \<ge> offsetX (layout s) \<and> x \<le> offsetX (layout s) + boardWidth s \<and>
      y \<ge> spawnZoneTop (layout s) \<and> y \<le> spawnZoneBottom (layout s))"

text \<open>The swap of the active piece into the vacated hold (the source hold has index \<open>j\<close>).\<close>

definition swapCurrent :: "nat \<Rightarrow> game \<Rightarrow> game" where
  "swapCurrent j s =
     (case currentPiece s of
        None \<Rightarrow> s
      | Some c \<Rightarrow>
          if \<not> inPlayZone (store s c) then
            (if canAdd (holds s ! j) (ptype (store s c))
             then pushHold j c (updPiece c (\<lambda>p. p\<lparr>inPlayZone := False\<rparr>) s)
             else s)
          else s)"

text \<open>
  \<open>handleDrop(piece, x, y)\<close>. The argument \<open>now\<close> is the value that \<open>performance.now()\<close>
  returns when the active piece goes into a hold.
\<close>

definition handleDrop :: "real \<Rightarrow> ref \<Rightarrow> real \<Rightarrow> real \<Rightarrow> game \<Rightarrow> game" where
  "handleDrop now piece x y s =
     (case firstHoldAt s x y of
        Some i \<Rightarrow>
          if canAdd (holds s ! i) (ptype (store s piece)) then
            (let s1 = (if currentPiece s = Some piece
                       then s\<lparr>currentPiece := None, lastHoldTime := now, pendingSpawn := True\<rparr>
                       else removeFromHolds s piece);
                 s2 = updPiece piece (\<lambda>p. p\<lparr>inPlayZone := False\<rparr>) s1
             in pushHold i piece s2)
          else s
      | None \<Rightarrow>
          if inSpawnZone s x y then
            (case findHoldContaining s piece of
               None \<Rightarrow> s
             | Some j \<Rightarrow>
                 (let s1 = s\<lparr>holds := (holds s)[j := removeFrom piece (holds s ! j)]\<rparr>;
                      s2 = swapCurrent j s1;
                      s3 = s2\<lparr>currentPiece := Some piece\<rparr>
                  in updPiece piece
                       (\<lambda>p. p\<lparr>px := centerX0 (shape p), py := spawnY (shape p), inPlayZone := False\<rparr>) s3))
          else s)"

section \<open>Hand input and numeric helpers\<close>

text \<open>
  One hand of the pose provider: the four landmarks the core reads, \<open>landmarks[0]\<close> (wrist),
  \<open>landmarks[4]\<close> (thumb tip), \<open>landmarks[8]\<close> (index tip) and \<open>landmarks[9]\<close> (middle
  finger base), each a point \<open>(x, y)\<close>.
\<close>

record hand =
  wrist :: "real \<times> real"
  thumbTip :: "real \<times> real"
  indexTip :: "real \<times> real"
  middleMCP :: "real \<times> real"

text \<open>\<open>Math.atan2\<close>, \<open>Math.round\<close> and the remainder operator \<open>%\<close> on real numbers.\<close>

definition atan2 :: "real \<Rightarrow> real \<Rightarrow> real" where
  "atan2 y x =
     (if x > 0 then arctan (y / x)
      else if x < 0 then (if y \<ge> 0 then arctan (y / x) + pi else arctan (y / x) - pi)
      else if y > 0 then pi / 2
      else if y < 0 then - pi / 2
      else 0)"

definition jsRound :: "real \<Rightarrow> int" where
  "jsRound v = \<lfloor>v + 1 / 2\<rfloor>"

definition jsRem :: "real \<Rightarrow> real \<Rightarrow> real" where
  "jsRem a b = sgn a * (\<bar>a\<bar> - \<bar>b\<bar> * of_int \<lfloor>\<bar>a\<bar> / \<bar>b\<bar>\<rfloor>)"

definition jsRemI :: "int \<Rightarrow> int \<Rightarrow> int" where
  "jsRemI a b = sgn a * (\<bar>a\<bar> mod \<bar>b\<bar>)"

definition hypot2 :: "real \<Rightarrow> real \<Rightarrow> real" where
  "hypot2 dx dy = sqrt (dx * dx + dy * dy)"

definition calculateWristAngle :: "hand \<Rightarrow> real option" where
  "calculateWristAngle hnd =
     (let dx = fst (middleMCP hnd) - fst (wrist hnd);
          dy = snd (middleMCP hnd) - snd (wrist hnd)
      in Some (atan2 dy dx * (180 / pi)))"

definition GRAB_THRESHOLD :: real where "GRAB_THRESHOLD = 9 / 100"
definition RELEASE_THRESHOLD :: real where "RELEASE_THRESHOLD = 15 / 100"

definition getInter :: "game \<Rightarrow> hand_side \<Rightarrow> interaction" where
  "getInter s sd = (case sd of Left \<Rightarrow> interLeft s | Right \<Rightarrow> interRight s)"

definition setInter :: "hand_side \<Rightarrow> interaction \<Rightarrow> game \<Rightarrow> game" where
  "setInter sd i s = (case sd of Left \<Rightarrow> s\<lparr>interLeft := i\<rparr> | Right \<Rightarrow> s\<lparr>interRight := i\<rparr>)"

definition otherSide :: "hand_side \<Rightarrow> hand_side" where
  "otherSide sd = (case sd of Left \<Rightarrow> Right | Right \<Rightarrow> Left)"

section \<open>Interaction state machine\<close>

text \<open>
  \<open>findNearestGrabbablePiece\<close>: the active piece first (any distance is below the initial
  \<open>Infinity\<close>), then the top piece of each hold, replacing the candidate on a strictly smaller
  distance. The result is \<open>(piece, dist, isPlayZone)\<close>, or \<open>None\<close> for \<open>null\<close>.
\<close>

definition nearerTop :: "game \<Rightarrow> real \<Rightarrow> real \<Rightarrow> hold \<Rightarrow> (ref \<times> real \<times> bool) option
    \<Rightarrow> (ref \<times> real \<times> bool) option" where
  "nearerTop s x y hold acc =
     (if length (pieces hold) > 0 then
        (let topPiece = last (pieces hold);
             d = hypot2 (x - screenX (store s topPiece)) (y - screenY (store s topPiece))
         in case acc of
              None \<Rightarrow> Some (topPiece, d, False)
            | Some (n, minDist, z) \<Rightarrow> if d < minDist then Some (topPiece, d, False) else acc)
      else acc)"

definition findNearestGrabbablePiece :: "game \<Rightarrow> real \<Rightarrow> real \<Rightarrow> (ref \<times> real \<times> bool) option" where
  "findNearestGrabbablePiece s x y =
     fold (nearerTop s x y) (holds s)
       (case currentPiece s of
          None \<Rightarrow> None
        | Some c \<Rightarrow> Some (c, hypot2 (x - screenX (store s c)) (y - screenY (store s c)),
                         inPlayZone (store s c)))"

text \<open>The branch for a hand in \<open>IDLE\<close> or \<open>TARGETING\<close>.\<close>

definition retarget :: "game \<Rightarrow> real \<Rightarrow> real \<Rightarrow> interaction \<Rightarrow> interaction" where
  "retarget s midX midY i =
     (case findNearestGrabbablePiece s midX midY of
        Some (piece, d, isPlayZone) \<Rightarrow>
          if d < 120 then i\<lparr>istate := TARGETING, target := Some piece, isPlayZoneGrab := isPlayZone\<rparr>
          else i\<lparr>istate := IDLE, target := None, isPlayZoneGrab := False\<rparr>
      | None \<Rightarrow> i\<lparr>istate := IDLE, target := None, isPlayZoneGrab := False\<rparr>)"

definition targetStep :: "hand_side \<Rightarrow> hand \<Rightarrow> real \<Rightarrow> real \<Rightarrow> bool \<Rightarrow> real \<Rightarrow> game \<Rightarrow> game" where
  "targetStep sd hnd midX midY canGrab currentTime s =
     (let i1 = retarget s midX midY (getInter s sd)
      in case target i1 of
           None \<Rightarrow> setInter sd i1 s
         | Some t \<Rightarrow>
             if canGrab then
               (let s1 = (if \<not> isPlayZoneGrab i1 then updPiece t (\<lambda>p. p\<lparr>isGrabbed := True\<rparr>) s else s);
                    i2 = i1\<lparr>istate := GRABBING,
                            grabOffset := Some (screenX (store s1 t) - midX, screenY (store s1 t) - midY),
                            grabAngle := calculateWristAngle hnd,
                            grabX := midX,
                            lastMoveTime := currentTime\<rparr>
                in setInter sd i2 s1)
             else setInter sd i1 s)"

text \<open>
  The release branch. \<open>piece === this.currentPiece\<close> compares references, \<open>null\<close> included.
  The result is \<open>None\<close> when the call does not return (the loop of \<open>hardDrop\<close>).
\<close>

definition releaseStep :: "hand_side \<Rightarrow> real \<Rightarrow> real \<Rightarrow> real \<Rightarrow> game \<Rightarrow> game option" where
  "releaseStep sd midX midY now s =
     (let i = getInter s sd
      in do {
        s1 \<leftarrow> (case target i of
                 Some piece \<Rightarrow>
                   if \<not> isPlayZoneGrab i
                   then Some (handleDrop now piece midX midY (updPiece piece (\<lambda>p. p\<lparr>isGrabbed := False\<rparr>) s))
                   else if currentPiece s = Some piece then hardDrop s
                   else Some s
               | None \<Rightarrow>
                   if isPlayZoneGrab i \<and> currentPiece s = None then hardDrop s else Some s);
        Some (setInter sd ((getInter s1 sd)\<lparr>istate := IDLE, target := None, grabOffset := None,
                 grabAngle := None, isPlayZoneGrab := False, currentRotation := None\<rparr>) s1)
      })"

text \<open>Lateral movement of the active piece by hand displacement.\<close>

definition moveGesture :: "hand_side \<Rightarrow> real \<Rightarrow> real \<Rightarrow> real \<Rightarrow> real \<Rightarrow> game \<Rightarrow> game" where
  "moveGesture sd MOVE_THRESHOLD MOVE_COOLDOWN midX currentTime s =
     (let i = getInter s sd; moveX = midX - grabX i
      in if \<bar>moveX\<bar> > MOVE_THRESHOLD \<and> currentTime - lastMoveTime i > MOVE_COOLDOWN then
           (let direction = (if moveX > 0 then 1 else - 1)
            in if canMove s direction 0 then
                 (case currentPiece s of
                    None \<Rightarrow> s
                  | Some c \<Rightarrow>
                      setInter sd (i\<lparr>grabX := midX, lastMoveTime := currentTime\<rparr>)
                        (updPiece c (\<lambda>p. p\<lparr>px := px p + direction\<rparr>) s))
               else s)
         else s)"

text \<open>The circle gesture: the quantised angle of the hand around the piece triggers rotations.\<close>

definition targetRotationOf :: "real \<Rightarrow> int" where
  "targetRotationOf ang =
     (let angleDeg = jsRem (ang * 180 / pi + 360) 360
      in jsRemI (jsRound (angleDeg / 90)) 4)"

definition shortestDiff :: "int \<Rightarrow> int \<Rightarrow> int" where
  "shortestDiff targetRotation cur =
     (let diff0 = targetRotation - cur;
          diff1 = (if diff0 > 2 then diff0 - 4 else diff0)
      in if diff1 < - 2 then diff1 + 4 else diff1)"

definition rotateGesture :: "hand_side \<Rightarrow> real \<Rightarrow> real \<Rightarrow> real \<Rightarrow> real \<Rightarrow> real \<Rightarrow> real \<Rightarrow> real \<Rightarrow> game \<Rightarrow> game" where
  "rotateGesture sd distThreshold ROTATION_COOLDOWN dx dy pieceX pieceY currentTime s =
     (let ang = atan2 dy dx;
          i1 = (getInter s sd)\<lparr>circleAngle := Some ang, circleRadius := Some 70,
                                pieceCenter := Some (pieceX, pieceY)\<rparr>;
          s1 = setInter sd i1 s
      in if hypot2 dx dy > distThreshold then
           (let targetRotation = targetRotationOf ang;
                cur = (case currentRotation i1 of None \<Rightarrow> 0 | Some r \<Rightarrow> r);
                i2 = i1\<lparr>currentRotation := Some cur\<rparr>;
                s2 = setInter sd i2 s1
            in if targetRotation \<noteq> cur \<and> currentTime - lastRotateTime i2 > ROTATION_COOLDOWN then
                 (let diff = shortestDiff targetRotation cur;
                      s3 = (if diff > 0 then rotatePiece s2 (currentPiece s2)
                            else if diff < 0 then
                              (let r1 = rotatePiece s2 (currentPiece s2);
                                   r2 = rotatePiece r1 (currentPiece r1)
                               in rotatePiece r2 (currentPiece r2))
                            else s2)
                  in setInter sd ((getInter s3 sd)\<lparr>currentRotation := Some targetRotation,
                                                     lastRotateTime := currentTime\<rparr>) s3)
               else s2)
         else s1)"

text \<open>Free drag of a spawn-zone or hold object.\<close>

definition freeDrag :: "hand_side \<Rightarrow> real \<Rightarrow> real \<Rightarrow> game \<Rightarrow> game" where
  "freeDrag sd midX midY s =
     (let i = getInter s sd;
          s1 = s\<lparr>isDraggingPiece := True, draggedPiece := target i\<rparr>
      in case (target i, grabOffset i) of
           (Some t, Some (ox, oy)) \<Rightarrow>
             updPiece t (\<lambda>p.
               let tx = midX + ox; ty = midY + oy;
                   dx = tx - screenX p; dy = ty - screenY p
               in p\<lparr>targetScreenX := tx, targetScreenY := ty,
                     screenX := screenX p + dx * (6 / 10), screenY := screenY p + dy * (6 / 10)\<rparr>) s1
         | _ \<Rightarrow> s1)"

text \<open>
  The branch for a hand in \<open>GRABBING\<close> or \<open>DRAGGING\<close> that does not release. If the hand is
  flagged as a play-zone grab and both its target and the active piece are \<open>null\<close>, the source
  reads \<open>this.currentPiece.screenX\<close> of \<open>null\<close> and throws: the model returns \<open>None\<close>.
\<close>

definition dragStep :: "hand_side \<Rightarrow> real \<Rightarrow> real \<Rightarrow> real \<Rightarrow> game \<Rightarrow> game option" where
  "dragStep sd midX midY currentTime s =
     (let i = (getInter s sd)\<lparr>istate := DRAGGING\<rparr>;
          s0 = setInter sd i s
      in if isPlayZoneGrab i \<and> target i = currentPiece s0 then
           (case currentPiece s0 of
              None \<Rightarrow> None
            | Some c \<Rightarrow>
                (let other = getInter s0 (otherSide sd);
                     isTwoHanded = (isPlayZoneGrab other \<and> istate other = DRAGGING);
                     pieceX = screenX (store s0 c);
                     pieceY = screenY (store s0 c);
                     dx = midX - pieceX;
                     dy = midY - pieceY
                 in Some
                   (if isTwoHanded then
                      (if sd = Left then
                         (let s1 = moveGesture sd 30 100 midX currentTime s0
                          in setInter sd ((getInter s1 sd)\<lparr>pieceCenter := None\<rparr>) s1)
                       else rotateGesture sd 30 200 dx dy pieceX pieceY currentTime s0)
                    else
                      moveGesture sd 35 120 midX currentTime
                        (rotateGesture sd 40 250 dx dy pieceX pieceY currentTime s0))))
         else Some (freeDrag sd midX midY s0))"

text \<open>
  The body of the \<open>forEach\<close> over the two sides, for one side: \<open>hand0\<close> is \<open>hands[side]\<close>,
  \<open>pinchDist\<close> is \<open>pinchDistances[side]\<close>, and \<open>now\<close> is the clock reading of a drop into a hold.
  \<open>smoothMid\<close> is the smoothed midpoint of thumb tip and index tip, mirrored and scaled to
  the canvas: the new value of \<open>interaction.smoothedPos\<close>.
\<close>

definition smoothMid :: "interaction \<Rightarrow> hand \<Rightarrow> real \<Rightarrow> real \<Rightarrow> real \<times> real" where
  "smoothMid i0 hnd w h =
     (let rawMidX = (1 - (fst (thumbTip hnd) + fst (indexTip hnd)) / 2) * w;
          rawMidY = ((snd (thumbTip hnd) + snd (indexTip hnd)) / 2) * h;
          sp = (case smoothedPos i0 of None \<Rightarrow> (rawMidX, rawMidY) | Some q \<Rightarrow> q);
          isDragging = (istate i0 = DRAGGING);
          smoothFactor = (if isDragging then 5 / 10 else 3 / 10)
      in (fst sp + (rawMidX - fst sp) * smoothFactor, snd sp + (rawMidY - snd sp) * smoothFactor))"

definition handStep :: "hand_side \<Rightarrow> hand option \<Rightarrow> real \<Rightarrow> real \<Rightarrow> real \<Rightarrow> real \<Rightarrow> real \<Rightarrow> game \<Rightarrow> game option" where
  "handStep sd hand0 pinchDist w h currentTime now s =
     (case hand0 of
        None \<Rightarrow>
          (let i = getInter s sd;
               s1 = (case target i of
                       None \<Rightarrow> s
                     | Some t \<Rightarrow> updPiece t (\<lambda>p. p\<lparr>isGrabbed := False\<rparr>) s)
           in Some (setInter sd (i\<lparr>istate := IDLE, target := None, grabAngle := None\<rparr>) s1))
      | Some hnd \<Rightarrow>
          (let i0 = getInter s sd;
               midX = fst (smoothMid i0 hnd w h);
               midY = snd (smoothMid i0 hnd w h);
               s1 = setInter sd (i0\<lparr>smoothedPos := Some (midX, midY)\<rparr>) s;
               canGrab = (pinchDist < GRAB_THRESHOLD);
               shouldRelease = (pinchDist > RELEASE_THRESHOLD)
           in if istate i0 = IDLE \<or> istate i0 = TARGETING
              then Some (targetStep sd hnd midX midY canGrab currentTime s1)
              else if shouldRelease then releaseStep sd midX midY now s1
              else dragStep sd midX midY currentTime s1))"

text \<open>
  The rest of \<open>handleHandInteraction\<close>: easing of every grabbed piece towards its target
  position, then the targeting feedback of the holds.
\<close>

definition allPieces :: "game \<Rightarrow> ref list" where
  "allPieces s =
     (case currentPiece s of None \<Rightarrow> [] | Some c \<Rightarrow> [c]) @ concat (map pieces (holds s))"

definition easeGrabbed :: "ref \<Rightarrow> game \<Rightarrow> game" where
  "easeGrabbed r s =
     (if isGrabbed (store s r) then
        updPiece r (\<lambda>p.
          let dx = targetScreenX p - screenX p;
              dy = targetScreenY p - screenY p;
              lerpFactor = 4 / 10 + min (hypot2 dx dy / 50) (4 / 10)
          in p\<lparr>screenX := screenX p + dx * lerpFactor, screenY := screenY p + dy * lerpFactor\<rparr>) s
      else s)"

definition getHandPosition :: "game \<Rightarrow> (real \<times> real) option" where
  "getHandPosition s =
     (if smoothedPos (interLeft s) \<noteq> None \<and> istate (interLeft s) = DRAGGING
      then smoothedPos (interLeft s)
      else if smoothedPos (interRight s) \<noteq> None \<and> istate (interRight s) = DRAGGING
      then smoothedPos (interRight s)
      else None)"

definition holdFeedback :: "game \<Rightarrow> game" where
  "holdFeedback s =
     (case (isDraggingPiece s, draggedPiece s, getHandPosition s) of
        (True, Some d, Some (x, y)) \<Rightarrow>
          s\<lparr>holds := map (\<lambda>hold. hold\<lparr>isTargeted :=
                          (inHoldBounds hold x y \<and> canAdd hold (ptype (store s d)))\<rparr>) (holds s)\<rparr>
      | _ \<Rightarrow> s)"

definition handleHandInteraction ::
    "(hand_side \<Rightarrow> hand option) \<Rightarrow> (hand_side \<Rightarrow> real) \<Rightarrow> real \<Rightarrow> real \<Rightarrow> real \<Rightarrow> (hand_side \<Rightarrow> real)
      \<Rightarrow> game \<Rightarrow> game option" where
  "handleHandInteraction hands pinchDistances w h currentTime clock s =
     do {
       s1 \<leftarrow> handStep Left (hands Left) (pinchDistances Left) w h currentTime (clock Left)
              (s\<lparr>isDraggingPiece := False, draggedPiece := None\<rparr>);
       s2 \<leftarrow> handStep Right (hands Right) (pinchDistances Right) w h currentTime (clock Right) s1;
       Some (holdFeedback (fold easeGrabbed (allPieces s2) s2))
     }"

section \<open>The frame update\<close>

definition placeCurrent :: "game \<Rightarrow> game" where
  "placeCurrent s =
     (case currentPiece s of
        None \<Rightarrow> s
      | Some c \<Rightarrow>
          (let p = store s c
           in if \<not> isGrabbed p then
                (let centerX =
                       (if inPlayZone p
                        then offsetX (layout s) + (real_of_int (px p) + real (width0 (shape p)) / 2) * CELL_SIZE
                        else offsetX (layout s) + boardWidth s / 2);
                     centerY =
                       (if inPlayZone p
                        then offsetY (layout s) + (real_of_int (py p) + real (length (shape p)) / 2) * CELL_SIZE
                        else
                          (let totalSpawnTicks = real SPAWN_TICKS + real (length (shape p));
                               currentTick = real_of_int (py p) + totalSpawnTicks;
                               progress = currentTick / totalSpawnTicks
                           in spawnZoneTop (layout s) + 30 + progress * (SPAWN_ZONE_HEIGHT - 50)))
                 in updPiece c (\<lambda>q. q\<lparr>screenX := centerX, screenY := centerY,
                                        targetScreenX := centerX, targetScreenY := centerY\<rparr>) s)
              else s))"

definition placeHeld :: "hold \<Rightarrow> game \<Rightarrow> game" where
  "placeHeld hold s =
     fold (\<lambda>(pieceIdx, r) s1.
        if \<not> isGrabbed (store s1 r) then
          (let stackOffset = real pieceIdx * 18;
               centerX = hx hold + HOLD_SLOT_WIDTH / 2 + stackOffset - (real (length (pieces hold)) - 1) * 9;
               centerY = hy hold + HOLD_SLOT_HEIGHT / 2 + 5
           in updPiece r (\<lambda>q. q\<lparr>screenX := centerX, screenY := centerY,
                                  targetScreenX := centerX, targetScreenY := centerY\<rparr>) s1)
        else s1)
       (enumerate 0 (pieces hold)) s"

definition updatePiecePositions :: "game \<Rightarrow> game" where
  "updatePiecePositions s = fold placeHeld (holds s) (placeCurrent s)"

definition layoutHolds :: "real \<Rightarrow> real \<Rightarrow> hold list \<Rightarrow> hold list" where
  "layoutHolds leftX rightX hs =
     map (\<lambda>(i, hold).
        if i < 3
        then hold\<lparr>hx := leftX, hy := 60 + real i * (HOLD_SLOT_HEIGHT + 20), isTargeted := False\<rparr>
        else hold\<lparr>hx := rightX, hy := 60 + (real i - 3) * (HOLD_SLOT_HEIGHT + 20), isTargeted := False\<rparr>)
       (enumerate 0 hs)"

definition computeLayout :: "real \<Rightarrow> real \<Rightarrow> game \<Rightarrow> game" where
  "computeLayout canvasWidth canvasHeight s =
     (let offX = (canvasWidth - boardWidth s) / 2;
          offY = canvasHeight - boardHeight s - 60;
          lay = (layout s)\<lparr>offsetX := offX, offsetY := offY,
                            spawnZoneTop := offY - SPAWN_ZONE_HEIGHT, spawnZoneBottom := offY,
                            holdLeftX := 40, holdRightX := canvasWidth - HOLD_SLOT_WIDTH - 40\<rparr>
      in s\<lparr>layout := lay, holds := layoutHolds (holdLeftX lay) (holdRightX lay) (holds s)\<rparr>)"

definition enterPlayZone :: "game \<Rightarrow> game" where
  "enterPlayZone s =
     (case currentPiece s of
        None \<Rightarrow> s
      | Some c \<Rightarrow>
          if \<not> inPlayZone (store s c) \<and> \<not> isGrabbed (store s c) \<and> py (store s c) \<ge> 0
          then updPiece c (\<lambda>p. p\<lparr>inPlayZone := True\<rparr>) s
          else s)"

definition deferredSpawn :: "real \<Rightarrow> game \<Rightarrow> game" where
  "deferredSpawn currentTime s =
     (if pendingSpawn s \<and> currentPiece s = None \<and> currentTime - lastHoldTime s \<ge> HOLD_SPAWN_DELAY
      then (spawnPiece s)\<lparr>pendingSpawn := False\<rparr>
      else s)"

definition autoDrop :: "real \<Rightarrow> game \<Rightarrow> game" where
  "autoDrop currentTime s =
     (case currentPiece s of
        None \<Rightarrow> s
      | Some c \<Rightarrow>
          if \<not> isGrabbed (store s c) \<and> currentTime - lastDropTime s > dropInterval s
          then dropPiece (s\<lparr>lastDropTime := currentTime\<rparr>)
          else s)"

text \<open>
  \<open>update(currentTime, hands, pinchDistances, canvasWidth, canvasHeight)\<close>. \<open>hands\<close> is
  \<open>None\<close> for \<open>null\<close> (the preview loop); \<open>clock side\<close> is what \<open>performance.now()\<close> returns
  while that side's hand is processed.
\<close>

definition update ::
    "real \<Rightarrow> (hand_side \<Rightarrow> hand option) option \<Rightarrow> (hand_side \<Rightarrow> real) \<Rightarrow> real \<Rightarrow> real
      \<Rightarrow> (hand_side \<Rightarrow> real) \<Rightarrow> game \<Rightarrow> game option" where
  "update currentTime hands pinchDistances canvasWidth canvasHeight clock s =
     (let s1 = deferredSpawn currentTime (enterPlayZone (computeLayout canvasWidth canvasHeight s))
      in do {
        s2 \<leftarrow> (case hands of
                 None \<Rightarrow> Some s1
               | Some hs \<Rightarrow> handleHandInteraction hs pinchDistances canvasWidth canvasHeight
                              currentTime clock s1);
        Some (updatePiecePositions (autoDrop currentTime s2))
      })"

text \<open>
  The constructor. The store starts with no piece allocated (its content at unallocated
  references is never read); \<open>currentRotation\<close>, \<open>circleAngle\<close>, \<open>circleRadius\<close> and
  \<open>pieceCenter\<close> are fields the constructor does not set (\<open>undefined\<close>).
\<close>

definition idleInteraction :: interaction where
  "idleInteraction =
     \<lparr>istate = IDLE, target = None, grabOffset = None, smoothedPos = None, grabAngle = None,
      lastRotateTime = 0, isPlayZoneGrab = False, grabX = 0, lastMoveTime = 0,
      currentRotation = None, circleAngle = None, circleRadius = None, pieceCenter = None\<rparr>"

definition emptyHold :: "hand_side \<Rightarrow> hold" where
  "emptyHold sd = \<lparr>pieces = [], htype = None, hx = 0, hy = 0, isTargeted = False, side = sd\<rparr>"

definition newGame :: "tetromino stream \<Rightarrow> game" where
  "newGame draws =
     spawnPiece
       \<lparr>board = createEmptyBoard,
        boardWidth = real COLS * CELL_SIZE,
        boardHeight = real ROWS * CELL_SIZE,
        currentPiece = None,
        lastDropTime = 0,
        dropInterval = 600,
        holds = [emptyHold Left, emptyHold Left, emptyHold Left,
                 emptyHold Right, emptyHold Right, emptyHold Right],
        lastHoldTime = 0,
        pendingSpawn = False,
        interLeft = idleInteraction,
        interRight = idleInteraction,
        layout = \<lparr>offsetX = 0, offsetY = 0, spawnZoneTop = 0, spawnZoneBottom = 0,
                  holdX = 0, holdY = 0, holdLeftX = 0, holdRightX = 0\<rparr>,
        isDraggingPiece = False,
        draggedPiece = None,
        store = (\<lambda>r. newPiece Tet_I),
        nextRef = 0,
        rng = draws\<rparr>"

section \<open>Rotation with wall kicks\<close>

text \<open>
  A shape is rectangular when it has at least one row and one column and all rows have the
  width of the first. \<open>rotatedAt p k\<close> is the piece \<open>p\<close> with the rotated shape, shifted by
  \<open>k\<close> columns.
\<close>

definition rect :: "nat list list \<Rightarrow> bool" where
  "rect sh = (sh \<noteq> [] \<and> width0 sh > 0 \<and> list_all (\<lambda>r. length r = width0 sh) sh)"

lemma rotateShape_transpose:
  assumes "rect sh"
  shows "rotateShape sh = map rev (transpose sh)"
proof -
  have a: "sh = [] \<Longrightarrow> width0 sh = 0" by (simp add: width0_def)
  have b: "\<And>i. i < length sh \<Longrightarrow> length (sh ! i) = width0 sh"
    using assms by (simp add: rect_def list_all_length)
  have "transpose sh = map (\<lambda>i. map (\<lambda>j. sh ! j ! i) [0..<length sh]) [0..<width0 sh]"
    using a b by (rule transpose_rectangle)
  then show ?thesis
    by (simp add: rotateShape_def Let_def rev_map)
qed

lemma rotateShape_rect:
  assumes "rect sh"
  shows "rect (rotateShape sh)"
proof -
  have l: "length sh > 0" using assms by (simp add: rect_def)
  have w: "width0 sh > 0" using assms by (simp add: rect_def)
  have len: "length (rotateShape sh) = width0 sh" by (simp add: rotateShape_def Let_def)
  then have ne: "rotateShape sh \<noteq> []" using w by auto
  have rows: "\<forall>r \<in> set (rotateShape sh). length r = length sh"
    by (auto simp: rotateShape_def Let_def)
  have "width0 (rotateShape sh) = length sh"
    using ne rows by (cases "rotateShape sh") (auto simp: width0_def)
  then show ?thesis using ne rows l by (simp add: rect_def list_all_iff)
qed

definition rotatedAt :: "piece \<Rightarrow> int \<Rightarrow> piece" where
  "rotatedAt p k = p\<lparr>shape := rotateShape (shape p), px := px p + k\<rparr>"

lemma rotateObj_cases:
  "rotateObj b p =
     (if ptype p = Tet_O then p
      else if canPlace b (rotatedAt p 0) then rotatedAt p 0
      else if canPlace b (rotatedAt p (- 1)) then rotatedAt p (- 1)
      else if canPlace b (rotatedAt p 1) then rotatedAt p 1
      else if canPlace b (rotatedAt p (- 2)) then rotatedAt p (- 2)
      else if canPlace b (rotatedAt p 2) then rotatedAt p 2
      else p)"
  by (simp add: rotateObj_def rotatedAt_def kicks_def Let_def)

text \<open>
  Claim C1. \<open>rotatePiece\<close> on a piece that is not of type O leaves it with the rotated shape
  (the transposed matrix with every row reversed: a clockwise quarter turn) at the first of
  the offsets 0, -1, +1, -2, +2 columns at which \<open>canPlace\<close> holds; when it holds at none of
  them, the piece is exactly as before (shape and x). A piece of type O is unchanged.
  Nothing but this piece object changes, and a piece that could be placed before the call
  can be placed after it.
\<close>

theorem rotatePiece_wall_kick:
  "store (rotatePiece s (Some r)) r =
     (let p = store s r in
      if ptype p = Tet_O then p
      else if canPlace (board s) (rotatedAt p 0) then rotatedAt p 0
      else if canPlace (board s) (rotatedAt p (- 1)) then rotatedAt p (- 1)
      else if canPlace (board s) (rotatedAt p 1) then rotatedAt p 1
      else if canPlace (board s) (rotatedAt p (- 2)) then rotatedAt p (- 2)
      else if canPlace (board s) (rotatedAt p 2) then rotatedAt p 2
      else p)
   \<and> rotatePiece s (Some r) = s\<lparr>store := (store s)(r := store (rotatePiece s (Some r)) r)\<rparr>
   \<and> (canPlace (board s) (store s r) \<longrightarrow> canPlace (board s) (store (rotatePiece s (Some r)) r))
   \<and> (rect (shape (store s r)) \<longrightarrow>
        shape (rotatedAt (store s r) 0) = map rev (transpose (shape (store s r))))
   \<and> rotatePiece s None = s"
proof -
  have st: "store (rotatePiece s (Some r)) r = rotateObj (board s) (store s r)"
    by (simp add: rotatePiece_def updPiece_def)
  have fr: "rotatePiece s (Some r) = s\<lparr>store := (store s)(r := store (rotatePiece s (Some r)) r)\<rparr>"
    by (simp add: rotatePiece_def updPiece_def)
  have cp: "canPlace (board s) (store s r) \<longrightarrow> canPlace (board s) (rotateObj (board s) (store s r))"
    by (simp add: rotateObj_cases)
  have tr: "rect (shape (store s r)) \<longrightarrow>
        shape (rotatedAt (store s r) 0) = map rev (transpose (shape (store s r)))"
    by (simp add: rotatedAt_def rotateShape_transpose)
  have nl: "rotatePiece s None = s" by (simp add: rotatePiece_def)
  show ?thesis
    unfolding st using fr cp tr nl by (simp add: rotateObj_cases Let_def st)
qed

theorem rotatePiece_wall_kick_witness:
  "canPlace (board (newGame (sconst Tet_T))) (store (newGame (sconst Tet_T)) 0)
   \<and> rect (shape (store (newGame (sconst Tet_T)) 0))
   \<and> canPlace (board (newGame (sconst Tet_T)))
        (store (rotatePiece (newGame (sconst Tet_T)) (Some 0)) 0)
   \<and> shape (store (rotatePiece (newGame (sconst Tet_T)) (Some 0)) 0) = [[1, 0], [1, 1], [1, 0]]
   \<and> px (store (rotatePiece (newGame (sconst Tet_T)) (Some 0)) 0) = 3"
proof -
  let ?g = "newGame (sconst Tet_T)"
  have p: "store ?g 0 = newPiece Tet_T" "board ?g = createEmptyBoard"
    by (simp_all add: newGame_def spawnPiece_def)
  have c: "canPlace (board ?g) (store ?g 0)"
    unfolding p
    by (simp add: newPiece_def canPlace_def shapeFits_def cellFree_def
        centerX0_def spawnY_def width0_def COLS_def ROWS_def SPAWN_TICKS_def)
  have r: "rect (shape (store ?g 0))"
    unfolding p by (simp add: newPiece_def rect_def width0_def)
  have rs: "shape (rotatedAt (newPiece Tet_T) 0) = [[1, 0], [1, 1], [1, 0]]"
    by (simp add: rotatedAt_def newPiece_def rotateShape_def width0_def upt_rec)
  have rx: "px (rotatedAt (newPiece Tet_T) 0) = 3" "py (rotatedAt (newPiece Tet_T) 0) = - 8"
    by (simp_all add: rotatedAt_def newPiece_def centerX0_def spawnY_def width0_def COLS_def
        SPAWN_TICKS_def)
  have c0: "canPlace createEmptyBoard (rotatedAt (newPiece Tet_T) 0)"
    unfolding canPlace_def rs rx
    by (simp add: shapeFits_def cellFree_def COLS_def ROWS_def)
  have e: "store (rotatePiece ?g (Some 0)) 0 = rotatedAt (newPiece Tet_T) 0"
    using rotatePiece_wall_kick[of ?g 0] c0 unfolding p
    by (simp add: Let_def newPiece_def)
  show ?thesis
    using c r c0 e rs rx by (simp add: p(2))
qed

section \<open>Line clearing\<close>

text \<open>\<open>scanned n b\<close>: no row of \<open>b\<close> at index \<open>n\<close> or below it on the screen is full.\<close>

lemma splice1_length: "i < length xs \<Longrightarrow> length (splice1 i xs) = length xs - 1"
  by (simp add: splice1_def)

lemma splice1_nth_ge: "i \<le> j \<Longrightarrow> Suc j < length xs \<Longrightarrow> splice1 i xs ! j = xs ! Suc j"
  by (simp add: splice1_def nth_append min_def)

lemma filter_splice1_drop:
  assumes "i < length xs" and "\<not> P (xs ! i)"
  shows "filter P (splice1 i xs) = filter P xs"
proof -
  have "xs = take i xs @ xs ! i # drop (Suc i) xs"
    using assms(1) by (rule id_take_nth_drop)
  then have "filter P xs = filter P (take i xs) @ filter P (drop (Suc i) xs)"
    using assms(2) by (metis filter.simps(2) filter_append)
  then show ?thesis
    by (simp add: splice1_def)
qed

lemma filter_splice1_count:
  assumes "i < length xs" and "P (xs ! i)"
  shows "Suc (length (filter P (splice1 i xs))) = length (filter P xs)"
proof -
  have "xs = take i xs @ xs ! i # drop (Suc i) xs"
    using assms(1) by (rule id_take_nth_drop)
  then have "filter P xs = filter P (take i xs) @ xs ! i # filter P (drop (Suc i) xs)"
    using assms(2) by (metis filter.simps(2) filter_append)
  then show ?thesis
    by (simp add: splice1_def)
qed

definition scanned :: "nat \<Rightarrow> board \<Rightarrow> bool" where
  "scanned n b = (\<forall>i. n \<le> i \<and> i < length b \<longrightarrow> \<not> rowFull (b ! i))"

lemma scanned_0: "scanned 0 b \<Longrightarrow> filter rowFull b = [] \<and> filter (\<lambda>r. \<not> rowFull r) b = b"
  by (auto simp: scanned_def filter_empty_conv filter_id_conv in_set_conv_nth)

lemma clearLinesFrom_spec:
  "n \<le> length b \<Longrightarrow> scanned n b \<Longrightarrow>
   clearLinesFrom n b = replicate (length (filter rowFull b)) emptyRow @ filter (\<lambda>r. \<not> rowFull r) b"
proof (induction n b rule: clearLinesFrom.induct)
  case (1 b)
  then show ?case using scanned_0[of b] by simp
next
  case (2 row b)
  have rl: "row < length b" using "2.prems"(1) by simp
  show ?case
  proof (cases "rowFull (b ! row)")
    case True
    let ?b' = "emptyRow # splice1 row b"
    have len: "Suc row \<le> length ?b'" using rl by (simp add: splice1_length)
    have sc: "scanned (Suc row) ?b'"
      unfolding scanned_def
    proof (intro allI impI)
      fix i assume i: "Suc row \<le> i \<and> i < length ?b'"
      then obtain j where j: "i = Suc j" "row \<le> j" by (cases i) auto
      have "Suc j < length b" using i j rl by (simp add: splice1_length)
      then have "?b' ! i = b ! Suc j" using j by (simp add: splice1_nth_ge)
      moreover have "\<not> rowFull (b ! Suc j)"
        using "2.prems"(2) j \<open>Suc j < length b\<close> by (simp add: scanned_def)
      ultimately show "\<not> rowFull (?b' ! i)" by simp
    qed
    have ih: "clearLinesFrom (Suc row) ?b' =
        replicate (length (filter rowFull ?b')) emptyRow @ filter (\<lambda>r. \<not> rowFull r) ?b'"
      using "2.IH"(1) rl True len sc by simp
    define k where "k = length (filter rowFull (splice1 row b))"
    have fb: "filter rowFull ?b' = filter rowFull (splice1 row b)"
      by (simp add: emptyRow_not_full)
    have c: "length (filter rowFull b) = Suc k"
      using filter_splice1_count[of row b rowFull] rl True by (simp add: k_def)
    have f: "filter (\<lambda>r. \<not> rowFull r) ?b' = emptyRow # filter (\<lambda>r. \<not> rowFull r) b"
      using filter_splice1_drop[of row b "\<lambda>r. \<not> rowFull r"] rl True
      by (simp add: emptyRow_not_full)
    have "clearLinesFrom (Suc row) b = clearLinesFrom (Suc row) ?b'"
      using rl True by simp
    also have "\<dots> = replicate k emptyRow @ emptyRow # filter (\<lambda>r. \<not> rowFull r) b"
      unfolding ih fb f k_def ..
    also have "\<dots> = replicate (Suc k) emptyRow @ filter (\<lambda>r. \<not> rowFull r) b"
      by (simp add: replicate_app_Cons_same)
    finally show ?thesis unfolding c .
  next
    case False
    have sc: "scanned row b"
      unfolding scanned_def
    proof (intro allI impI)
      fix i assume i: "row \<le> i \<and> i < length b"
      show "\<not> rowFull (b ! i)"
      proof (cases "i = row")
        case True then show ?thesis using False by simp
      next
        case False
        then have "Suc row \<le> i" using i by simp
        then show ?thesis using "2.prems"(2) i by (simp add: scanned_def)
      qed
    qed
    have "clearLinesFrom (Suc row) b = clearLinesFrom row b" using False by simp
    then show ?thesis using "2.IH"(2) False rl sc by simp
  qed
qed

lemma filter_unique_full:
  assumes k: "k < length b" and u: "\<forall>i<length b. P (b ! i) = (i = k)"
  shows "filter P b = [b ! k] \<and> filter (\<lambda>r. \<not> P r) b = take k b @ drop (Suc k) b"
proof -
  have split: "b = take k b @ b ! k # drop (Suc k) b"
    using k by (rule id_take_nth_drop)
  have t: "\<forall>x \<in> set (take k b). \<not> P x"
  proof
    fix x assume "x \<in> set (take k b)"
    then obtain i where "i < length (take k b)" "take k b ! i = x"
      by (auto simp: in_set_conv_nth)
    then have "i < k" "i < length b" "b ! i = x" using k by auto
    then show "\<not> P x" using u by auto
  qed
  have d: "\<forall>x \<in> set (drop (Suc k) b). \<not> P x"
  proof
    fix x assume "x \<in> set (drop (Suc k) b)"
    then obtain i where i: "i < length (drop (Suc k) b)" "drop (Suc k) b ! i = x"
      by (auto simp: in_set_conv_nth)
    then have "Suc k + i < length b" "b ! (Suc k + i) = x" by auto
    then show "\<not> P x" using u by auto
  qed
  have pk: "P (b ! k)" using u k by simp
  have f1: "filter P (take k b) = []" "filter P (drop (Suc k) b) = []"
    using t d by (auto simp: filter_empty_conv)
  have f2: "filter (\<lambda>r. \<not> P r) (take k b) = take k b"
           "filter (\<lambda>r. \<not> P r) (drop (Suc k) b) = drop (Suc k) b"
    using t d by (auto simp: filter_id_conv)
  have "filter P b = filter P (take k b) @ filter P (b ! k # drop (Suc k) b)"
    using split by (metis filter_append)
  then have A: "filter P b = [b ! k]" using f1 pk by simp
  have "filter (\<lambda>r. \<not> P r) b
      = filter (\<lambda>r. \<not> P r) (take k b) @ filter (\<lambda>r. \<not> P r) (b ! k # drop (Suc k) b)"
    using split by (metis filter_append)
  then have B: "filter (\<lambda>r. \<not> P r) b = take k b @ drop (Suc k) b" using f2 pk by simp
  show ?thesis using A B by simp
qed

lemma scanned_top: "scanned (length b) b"
  by (auto simp: scanned_def)

text \<open>
  Claim C3. On a board of \<open>ROWS\<close> rows, \<open>clearLines\<close> removes exactly the full rows, keeps
  the other rows in their order and puts one empty row on top for every row removed; no
  other field changes. In particular, when row \<open>k\<close> is the only full row, the result is one
  empty row followed by the other \<open>ROWS - 1\<close> rows in their order.
\<close>

theorem clearLines_removes_full_rows:
  "length (board s) = ROWS \<Longrightarrow>
     clearLines s =
       s\<lparr>board := replicate (length (filter rowFull (board s))) emptyRow
                    @ filter (\<lambda>r. \<not> rowFull r) (board s)\<rparr>
     \<and> (\<forall>k<ROWS. (\<forall>i<ROWS. rowFull (board s ! i) = (i = k)) \<longrightarrow>
           board (clearLines s) = emptyRow # take k (board s) @ drop (Suc k) (board s))"
proof -
  assume len: "length (board s) = ROWS"
  have spec: "clearLinesFrom ROWS (board s) =
      replicate (length (filter rowFull (board s))) emptyRow @ filter (\<lambda>r. \<not> rowFull r) (board s)"
    using clearLinesFrom_spec[of ROWS "board s"] scanned_top[of "board s"] len by simp
  have one: "\<forall>k<ROWS. (\<forall>i<ROWS. rowFull (board s ! i) = (i = k)) \<longrightarrow>
           board (clearLines s) = emptyRow # take k (board s) @ drop (Suc k) (board s)"
  proof (intro allI impI)
    fix k assume k: "k < ROWS" and u: "\<forall>i<ROWS. rowFull (board s ! i) = (i = k)"
    have "filter rowFull (board s) = [board s ! k] \<and>
          filter (\<lambda>r. \<not> rowFull r) (board s) = take k (board s) @ drop (Suc k) (board s)"
      using filter_unique_full[of k "board s" rowFull] k u len by simp
    then show "board (clearLines s) = emptyRow # take k (board s) @ drop (Suc k) (board s)"
      using spec by (simp add: clearLines_def)
  qed
  show ?thesis using spec one by (simp add: clearLines_def)
qed

lemma fullRow_I: "rowFull (replicate 10 (Some Tet_I))"
  by (simp add: rowFull_def list_all_iff)

theorem clearLines_removes_full_rows_witness:
  "length (board ((newGame (sconst Tet_T))\<lparr>board := replicate 19 emptyRow @ [replicate 10 (Some Tet_I)]\<rparr>)) = ROWS
   \<and> board (clearLines ((newGame (sconst Tet_T))\<lparr>board := replicate 19 emptyRow @ [replicate 10 (Some Tet_I)]\<rparr>))
       = createEmptyBoard"
proof -
  let ?s = "(newGame (sconst Tet_T))\<lparr>board := replicate 19 emptyRow @ [replicate 10 (Some Tet_I)]\<rparr>"
  have h: "length (board ?s) = ROWS" by (simp add: ROWS_def)
  have "clearLines ?s =
       ?s\<lparr>board := replicate (length (filter rowFull (board ?s))) emptyRow
                    @ filter (\<lambda>r. \<not> rowFull r) (board ?s)\<rparr>"
    using clearLines_removes_full_rows[OF h] by (rule conjunct1)
  then have "board (clearLines ?s) = emptyRow # replicate 19 emptyRow"
    by (simp add: filter_replicate emptyRow_not_full fullRow_I)
  moreover have "replicate (Suc 19) emptyRow = emptyRow # replicate 19 emptyRow"
    by (rule replicate_Suc)
  moreover have "ROWS = Suc 19" by (simp add: ROWS_def)
  ultimately have "board (clearLines ?s) = createEmptyBoard"
    by (simp only: createEmptyBoard_def)
  then show ?thesis using h by simp
qed

section \<open>Spawn and fall on an empty board\<close>

text \<open>
  \<open>falling s n\<close> is the state \<open>n\<close> ticks after \<open>spawnPiece s\<close>, while the piece is still falling;
  \<open>landed t\<close> is a fresh piece of type \<open>t\<close> standing on the bottom row.
\<close>

lemma occupied_empty: "occupied createEmptyBoard y x = False"
  by (auto simp: occupied_def createEmptyBoard_def emptyRow_def)

lemma cellFree_empty:
  "cellFree createEmptyBoard x y = (0 \<le> x \<and> x < int COLS \<and> y < int ROWS)"
  by (auto simp: cellFree_def occupied_empty)

lemma shapeFits_spawn:
  "shapeFits createEmptyBoard (SHAPES t) (centerX0 (SHAPES t)) y
     = (y + int (length (SHAPES t)) \<le> int ROWS)"
  by (cases t)
     (auto simp: shapeFits_def cellFree_empty centerX0_def width0_def COLS_def ROWS_def)

definition falling :: "game \<Rightarrow> nat \<Rightarrow> game" where
  "falling s n =
     updPiece (nextRef s)
       (\<lambda>p. p\<lparr>py := spawnY (SHAPES (shd (rng s))) + int n,
              inPlayZone := (0 \<le> spawnY (SHAPES (shd (rng s))) + int n)\<rparr>)
       (spawnPiece s)"

lemma falling_0: "falling s 0 = spawnPiece s"
  by (simp add: falling_def updPiece_def spawnPiece_def newPiece_def spawnY_def SPAWN_TICKS_def)

lemma falling_fields:
  "currentPiece (falling s n) = Some (nextRef s)"
  "board (falling s n) = board s"
  "store (falling s n) (nextRef s) =
     (newPiece (shd (rng s)))\<lparr>py := spawnY (SHAPES (shd (rng s))) + int n,
              inPlayZone := (0 \<le> spawnY (SHAPES (shd (rng s))) + int n)\<rparr>"
  by (simp_all add: falling_def updPiece_def spawnPiece_def)

lemma falling_step:
  assumes "board s = createEmptyBoard" and "n < ROWS + SPAWN_TICKS"
  shows "dropPiece (falling s n) = falling s (Suc n)"
proof -
  let ?t = "shd (rng s)"
  let ?y = "spawnY (SHAPES ?t) + int n"
  have cm: "0 \<le> ?y \<Longrightarrow> canMove (falling s n) 0 1"
    using assms
    by (simp add: canMove_def falling_fields newPiece_def shapeFits_spawn spawnY_def
        ROWS_def SPAWN_TICKS_def)
  show ?thesis
  proof (cases "?y < 0")
    case True
    then show ?thesis
      by (simp add: dropPiece_def falling_fields newPiece_def incY_def Let_def)
         (simp add: falling_def updPiece_def spawnPiece_def newPiece_def ac_simps)
  next
    case False
    then show ?thesis
      using cm
      by (simp add: dropPiece_def falling_fields newPiece_def incY_def Let_def)
         (simp add: falling_def updPiece_def spawnPiece_def newPiece_def ac_simps)
  qed
qed

lemma falling_run:
  "board s = createEmptyBoard \<Longrightarrow> n \<le> ROWS + SPAWN_TICKS \<Longrightarrow>
     (dropPiece ^^ n) (spawnPiece s) = falling s n"
proof (induction n)
  case 0
  then show ?case by (simp add: falling_0)
next
  case (Suc n)
  then show ?case by (simp add: falling_step)
qed

definition landed :: "tetromino \<Rightarrow> piece" where
  "landed t = (newPiece t)\<lparr>py := int ROWS - int (length (SHAPES t))\<rparr>"

lemma landed_rows:
  "length (lockCells createEmptyBoard (landed t)) = ROWS
   \<and> filter rowFull (lockCells createEmptyBoard (landed t)) = []
   \<and> Some t \<in> set (lockCells createEmptyBoard (landed t) ! (ROWS - 1))"
  by (cases t; hypsubst_thin; code_simp)

lemma clearLinesFrom_no_full:
  assumes "length b = ROWS" and "filter rowFull b = []"
  shows "clearLinesFrom ROWS b = b"
proof -
  have "\<forall>r \<in> set b. \<not> rowFull r" using assms(2) by (simp add: filter_empty_conv)
  then have "filter (\<lambda>r. \<not> rowFull r) b = b" by (simp add: filter_id_conv)
  then show ?thesis
    using clearLinesFrom_spec[of ROWS b] scanned_top[of b] assms by simp
qed

lemma lockCells_cong:
  "shape p = shape q \<Longrightarrow> px p = px q \<Longrightarrow> py p = py q \<Longrightarrow> ptype p = ptype q \<Longrightarrow>
   lockCells b p = lockCells b q"
  by (simp add: lockCells_def split_def cong: if_cong)

lemma falling_lock:
  assumes "board s = createEmptyBoard"
  shows "dropPiece (falling s (ROWS + SPAWN_TICKS)) =
     spawnPiece ((falling s (ROWS + SPAWN_TICKS))
        \<lparr>board := lockCells createEmptyBoard (landed (shd (rng s)))\<rparr>)"
proof -
  let ?t = "shd (rng s)"
  let ?f = "falling s (ROWS + SPAWN_TICKS)"
  have y: "py (store ?f (nextRef s)) = int ROWS - int (length (SHAPES ?t))"
    by (simp add: falling_fields spawnY_def)
  have ncm: "\<not> canMove ?f 0 1"
    using assms
    by (simp add: canMove_def falling_fields newPiece_def shapeFits_spawn spawnY_def)
  have lk: "lockPiece ?f = ?f\<lparr>board := lockCells createEmptyBoard (landed ?t)\<rparr>"
  proof -
    have "board ?f = createEmptyBoard" using assms by (simp add: falling_fields)
    moreover have "lockCells createEmptyBoard (store ?f (nextRef s))
        = lockCells createEmptyBoard (landed ?t)"
      by (rule lockCells_cong) (simp_all add: falling_fields landed_def newPiece_def spawnY_def)
    ultimately show ?thesis by (simp add: lockPiece_def falling_fields(1))
  qed
  have cl: "clearLines (?f\<lparr>board := lockCells createEmptyBoard (landed ?t)\<rparr>)
      = ?f\<lparr>board := lockCells createEmptyBoard (landed ?t)\<rparr>"
    using landed_rows[of ?t] by (simp add: clearLines_def clearLinesFrom_no_full)
  have g: "\<not> isGrabbed (store ?f (nextRef s))" "\<not> py (store ?f (nextRef s)) < 0"
    using y by (cases ?t; simp add: falling_fields newPiece_def ROWS_def)+
  show ?thesis
    using g ncm by (simp add: dropPiece_def falling_fields(1) lk cl)
qed

text \<open>
  Claim C4, as amended. A piece spawned on an empty board is locked by tick number
  \<open>ROWS + SPAWN_TICKS + 1\<close> (27), not by tick \<open>ROWS\<close>: it starts \<open>SPAWN_TICKS\<close> rows plus its own
  height above row 0, and the tick that locks it comes after the last tick that moves it.
  After these ticks the board is the empty board with the piece locked so that its last shape
  row is on the bottom board row, and a new piece has been spawned from the next draw.
  During the first \<open>ROWS + SPAWN_TICKS\<close> ticks nothing is locked and the piece goes down one row
  per tick.
\<close>

theorem spawn_then_gravity_locks:
  "board s = createEmptyBoard \<Longrightarrow>
     board ((dropPiece ^^ (ROWS + SPAWN_TICKS + 1)) (spawnPiece s))
        = lockCells createEmptyBoard (landed (shd (rng s)))
   \<and> Some (shd (rng s))
        \<in> set (board ((dropPiece ^^ (ROWS + SPAWN_TICKS + 1)) (spawnPiece s)) ! (ROWS - 1))
   \<and> currentPiece ((dropPiece ^^ (ROWS + SPAWN_TICKS + 1)) (spawnPiece s)) = Some (Suc (nextRef s))
   \<and> store ((dropPiece ^^ (ROWS + SPAWN_TICKS + 1)) (spawnPiece s)) (Suc (nextRef s))
        = newPiece (shd (stl (rng s)))
   \<and> (\<forall>n \<le> ROWS + SPAWN_TICKS.
         board ((dropPiece ^^ n) (spawnPiece s)) = createEmptyBoard
       \<and> currentPiece ((dropPiece ^^ n) (spawnPiece s)) = Some (nextRef s)
       \<and> py (store ((dropPiece ^^ n) (spawnPiece s)) (nextRef s))
            = spawnY (SHAPES (shd (rng s))) + int n)"
proof -
  assume e: "board s = createEmptyBoard"
  let ?f = "falling s (ROWS + SPAWN_TICKS)"
  have "(dropPiece ^^ (ROWS + SPAWN_TICKS + 1)) (spawnPiece s)
      = dropPiece ((dropPiece ^^ (ROWS + SPAWN_TICKS)) (spawnPiece s))"
    by simp
  also have "\<dots> = dropPiece ?f" using e by (simp add: falling_run)
  also have "\<dots> = spawnPiece (?f\<lparr>board := lockCells createEmptyBoard (landed (shd (rng s)))\<rparr>)"
    using e by (rule falling_lock)
  finally have fin: "(dropPiece ^^ (ROWS + SPAWN_TICKS + 1)) (spawnPiece s)
      = spawnPiece (?f\<lparr>board := lockCells createEmptyBoard (landed (shd (rng s)))\<rparr>)" .
  have nr: "nextRef ?f = Suc (nextRef s)" "rng ?f = stl (rng s)"
    by (simp_all add: falling_def updPiece_def spawnPiece_def)
  have a: "board ((dropPiece ^^ (ROWS + SPAWN_TICKS + 1)) (spawnPiece s))
        = lockCells createEmptyBoard (landed (shd (rng s)))"
    unfolding fin by (simp add: spawnPiece_def)
  have b: "Some (shd (rng s))
        \<in> set (board ((dropPiece ^^ (ROWS + SPAWN_TICKS + 1)) (spawnPiece s)) ! (ROWS - 1))"
    unfolding a using landed_rows[of "shd (rng s)"] by simp
  have c: "currentPiece ((dropPiece ^^ (ROWS + SPAWN_TICKS + 1)) (spawnPiece s)) = Some (Suc (nextRef s))"
    unfolding fin by (simp add: spawnPiece_def nr)
  have d: "store ((dropPiece ^^ (ROWS + SPAWN_TICKS + 1)) (spawnPiece s)) (Suc (nextRef s))
        = newPiece (shd (stl (rng s)))"
    unfolding fin by (simp add: spawnPiece_def nr)
  have f: "\<forall>n \<le> ROWS + SPAWN_TICKS.
         board ((dropPiece ^^ n) (spawnPiece s)) = createEmptyBoard
       \<and> currentPiece ((dropPiece ^^ n) (spawnPiece s)) = Some (nextRef s)
       \<and> py (store ((dropPiece ^^ n) (spawnPiece s)) (nextRef s))
            = spawnY (SHAPES (shd (rng s))) + int n"
    using e by (simp add: falling_run falling_fields)
  show ?thesis using a b c d f by blast
qed

theorem spawn_then_gravity_locks_witness:
  "board (newGame (sconst Tet_I)) = createEmptyBoard
   \<and> 19 \<le> ROWS + SPAWN_TICKS
   \<and> currentPiece ((dropPiece ^^ (ROWS + SPAWN_TICKS + 1)) (spawnPiece (newGame (sconst Tet_I)))) = Some 2
   \<and> Some Tet_I \<in> set (board ((dropPiece ^^ (ROWS + SPAWN_TICKS + 1))
                                  (spawnPiece (newGame (sconst Tet_I)))) ! (ROWS - 1))
   \<and> py (store ((dropPiece ^^ 19) (spawnPiece (newGame (sconst Tet_I)))) 1) = 12"
proof -
  let ?g = "newGame (sconst Tet_I)"
  have h: "board ?g = createEmptyBoard" by (simp add: newGame_def spawnPiece_def)
  have n: "nextRef ?g = 1" "shd (rng ?g) = Tet_I"
    by (simp_all add: newGame_def spawnPiece_def)
  have k: "(19::nat) \<le> ROWS + SPAWN_TICKS" by (simp add: ROWS_def SPAWN_TICKS_def)
  note T = spawn_then_gravity_locks[OF h]
  have c: "currentPiece ((dropPiece ^^ (ROWS + SPAWN_TICKS + 1)) (spawnPiece ?g)) = Some 2"
    using T n by (simp add: numeral_2_eq_2)
  have b: "Some Tet_I \<in> set (board ((dropPiece ^^ (ROWS + SPAWN_TICKS + 1)) (spawnPiece ?g)) ! (ROWS - 1))"
    using T unfolding n by (elim conjE)
  have "py (store ((dropPiece ^^ 19) (spawnPiece ?g)) (nextRef ?g))
            = spawnY (SHAPES (shd (rng ?g))) + int 19"
    using T k by blast
  then have p: "py (store ((dropPiece ^^ 19) (spawnPiece ?g)) 1) = 12"
    unfolding n by (simp add: spawnY_def SPAWN_TICKS_def)
  show ?thesis using h k c b p by simp
qed

text \<open>
  Claim C4 as stated fails: after \<open>ROWS\<close> ticks an I piece is at row 13, the board is still
  empty and no new piece has been spawned.
\<close>

theorem rows_ticks_do_not_lock_counterexample:
  "board ((dropPiece ^^ ROWS) (newGame (sconst Tet_I))) = createEmptyBoard
   \<and> currentPiece ((dropPiece ^^ ROWS) (newGame (sconst Tet_I))) = Some 0
   \<and> py (store ((dropPiece ^^ ROWS) (newGame (sconst Tet_I))) 0) = 13
   \<and> Some Tet_I \<notin> set (board ((dropPiece ^^ ROWS) (newGame (sconst Tet_I))) ! (ROWS - 1))"
proof -
  obtain s0 where s0: "newGame (sconst Tet_I) = spawnPiece s0" "board s0 = createEmptyBoard"
      "nextRef s0 = 0" "shd (rng s0) = Tet_I"
    by (simp add: newGame_def)
  have r: "(dropPiece ^^ ROWS) (newGame (sconst Tet_I)) = falling s0 ROWS"
    unfolding s0(1) using s0(2) by (rule falling_run) simp
  have e: "createEmptyBoard ! (ROWS - 1) = emptyRow"
    by (simp add: createEmptyBoard_def ROWS_def)
  have a: "board (falling s0 ROWS) = createEmptyBoard" "currentPiece (falling s0 ROWS) = Some 0"
    using s0 by (simp_all add: falling_fields)
  have p: "py (store (falling s0 ROWS) 0) = 13"
    using falling_fields(3)[of s0 ROWS] s0 by (simp add: spawnY_def SPAWN_TICKS_def ROWS_def)
  have n: "Some Tet_I \<notin> set (createEmptyBoard ! (ROWS - 1))"
    unfolding e by (simp add: emptyRow_def)
  show ?thesis
    unfolding r using a p n by simp
qed

section \<open>Drop resolution on a hold that cannot take the object\<close>

lemma firstHoldAt_None:
  "(firstHoldAt s x y = None) = (\<forall>i<length (holds s). \<not> inHoldBounds (holds s ! i) x y)"
  by (auto simp: firstHoldAt_def find_None_iff)

lemma firstHoldAt_Some:
  "(firstHoldAt s x y = Some i) =
     (i < length (holds s) \<and> inHoldBounds (holds s ! i) x y
      \<and> (\<forall>j<i. \<not> inHoldBounds (holds s ! j) x y))"
  by (auto simp: firstHoldAt_def find_Some_iff)

lemma handleDrop_rejected:
  "firstHoldAt s x y = Some i \<Longrightarrow> \<not> canAdd (holds s ! i) (ptype (store s piece)) \<Longrightarrow>
   handleDrop now piece x y s = s"
  by (simp add: handleDrop_def)

lemma handleDrop_outside:
  "firstHoldAt s x y = None \<Longrightarrow> \<not> inSpawnZone s x y \<Longrightarrow> handleDrop now piece x y s = s"
  by (simp add: handleDrop_def)

text \<open>
  Claim C8, as amended. When the first hold in the order of \<open>this.holds\<close> whose bounds (the
  slot rectangle widened by the 10 pixel tolerance) contain the drop point is full, or carries
  a type tag other than the type of the dropped object, \<open>handleDrop\<close> changes nothing: the
  whole game state, with every hold, the active piece and the board, is as before.
\<close>

theorem handleDrop_rejected_unchanged:
  "i < length (holds s) \<Longrightarrow> inHoldBounds (holds s ! i) x y \<Longrightarrow>
   \<forall>j<i. \<not> inHoldBounds (holds s ! j) x y \<Longrightarrow>
   length (pieces (holds s ! i)) \<ge> MAX_PER_HOLD
     \<or> (htype (holds s ! i) \<noteq> None \<and> htype (holds s ! i) \<noteq> Some (ptype (store s piece))) \<Longrightarrow>
   handleDrop now piece x y s = s"
proof -
  assume a: "i < length (holds s)" "inHoldBounds (holds s ! i) x y"
    "\<forall>j<i. \<not> inHoldBounds (holds s ! j) x y"
  assume r: "length (pieces (holds s ! i)) \<ge> MAX_PER_HOLD
     \<or> (htype (holds s ! i) \<noteq> None \<and> htype (holds s ! i) \<noteq> Some (ptype (store s piece)))"
  have f: "firstHoldAt s x y = Some i" using a by (simp add: firstHoldAt_Some)
  have "\<not> canAdd (holds s ! i) (ptype (store s piece))"
    using r by (auto simp: canAdd_def)
  with f show ?thesis by (rule handleDrop_rejected)
qed

text \<open>
  A game on a canvas 200 pixels wide, where the bounds of the left and the right bank of
  holds overlap; hold 3 (the first of the right bank) holds three T pieces.
\<close>

definition fullHoldGame :: game where
  "fullHoldGame =
     (let g = computeLayout 200 720 (newGame (sconst Tet_T))
      in g\<lparr>holds := (holds g)[3 := (holds g ! 3)\<lparr>pieces := [1, 2, 3], htype := Some Tet_T\<rparr>],
           store := (store g)(1 := newPiece Tet_T, 2 := newPiece Tet_T, 3 := newPiece Tet_T),
           nextRef := 4\<rparr>)"

lemma fullHoldGame_holds:
  "holds fullHoldGame =
     [\<lparr>pieces = [], htype = None, hx = 40, hy = 60, isTargeted = False, side = Left\<rparr>,
      \<lparr>pieces = [], htype = None, hx = 40, hy = 150, isTargeted = False, side = Left\<rparr>,
      \<lparr>pieces = [], htype = None, hx = 40, hy = 240, isTargeted = False, side = Left\<rparr>,
      \<lparr>pieces = [1, 2, 3], htype = Some Tet_T, hx = 70, hy = 60, isTargeted = False, side = Right\<rparr>,
      \<lparr>pieces = [], htype = None, hx = 70, hy = 150, isTargeted = False, side = Right\<rparr>,
      \<lparr>pieces = [], htype = None, hx = 70, hy = 240, isTargeted = False, side = Right\<rparr>]"
  by (simp add: fullHoldGame_def computeLayout_def layoutHolds_def newGame_def spawnPiece_def
      emptyHold_def HOLD_SLOT_WIDTH_def HOLD_SLOT_HEIGHT_def Let_def)

lemma fullHoldGame_fields:
  "currentPiece fullHoldGame = Some 0"
  "ptype (store fullHoldGame 0) = Tet_T"
  by (simp_all add: fullHoldGame_def computeLayout_def newGame_def spawnPiece_def Let_def
      newPiece_def)

lemma all_less_3: "(\<forall>j<3. P j) = (P 0 \<and> P (Suc 0) \<and> P (Suc (Suc 0)))"
  by (auto simp: numeral_3_eq_3 less_Suc_eq)

theorem handleDrop_rejected_unchanged_witness:
  "3 < length (holds fullHoldGame)
   \<and> inHoldBounds (holds fullHoldGame ! 3) 150 100
   \<and> \<not> inHoldBounds (holds fullHoldGame ! 0) 150 100
   \<and> \<not> inHoldBounds (holds fullHoldGame ! 1) 150 100
   \<and> \<not> inHoldBounds (holds fullHoldGame ! 2) 150 100
   \<and> length (pieces (holds fullHoldGame ! 3)) \<ge> MAX_PER_HOLD
   \<and> handleDrop 0 0 150 100 fullHoldGame = fullHoldGame"
proof -
  have a: "3 < length (holds fullHoldGame)" by (simp add: fullHoldGame_holds)
  have b: "inHoldBounds (holds fullHoldGame ! 3) 150 100"
    by (simp add: fullHoldGame_holds inHoldBounds_def HOLD_SLOT_WIDTH_def HOLD_SLOT_HEIGHT_def)
  have c: "\<forall>j<3. \<not> inHoldBounds (holds fullHoldGame ! j) 150 100"
    by (simp add: all_less_3 fullHoldGame_holds inHoldBounds_def HOLD_SLOT_WIDTH_def
        HOLD_SLOT_HEIGHT_def)
  have d: "length (pieces (holds fullHoldGame ! 3)) \<ge> MAX_PER_HOLD"
    by (simp add: fullHoldGame_holds MAX_PER_HOLD_def)
  show ?thesis
    using handleDrop_rejected_unchanged[OF a b c, of 0 0] a b c d
    by (simp add: all_less_3 numeral_2_eq_2)
qed

text \<open>
  Claim C8 as stated fails: the drop point \<open>(100, 100)\<close> lies within the rectangle of hold 3,
  which is full, and also within the bounds of hold 0, which comes first; the active piece
  goes into hold 0.
\<close>

theorem full_slot_drop_changes_counterexample:
  "inHoldBounds (holds fullHoldGame ! 3) 100 100
   \<and> length (pieces (holds fullHoldGame ! 3)) = MAX_PER_HOLD
   \<and> currentPiece fullHoldGame = Some 0
   \<and> currentPiece (handleDrop 0 0 100 100 fullHoldGame) = None
   \<and> pieces (holds (handleDrop 0 0 100 100 fullHoldGame) ! 0) = [0]
   \<and> handleDrop 0 0 100 100 fullHoldGame \<noteq> fullHoldGame"
proof -
  have b: "inHoldBounds (holds fullHoldGame ! 3) 100 100"
    by (simp add: fullHoldGame_holds inHoldBounds_def HOLD_SLOT_WIDTH_def HOLD_SLOT_HEIGHT_def)
  have d: "length (pieces (holds fullHoldGame ! 3)) = MAX_PER_HOLD"
    by (simp add: fullHoldGame_holds MAX_PER_HOLD_def)
  have f: "firstHoldAt fullHoldGame 100 100 = Some 0"
    by (simp add: firstHoldAt_Some fullHoldGame_holds inHoldBounds_def HOLD_SLOT_WIDTH_def
        HOLD_SLOT_HEIGHT_def)
  have ca: "canAdd (holds fullHoldGame ! 0) (ptype (store fullHoldGame 0))"
    by (simp add: fullHoldGame_holds canAdd_def MAX_PER_HOLD_def)
  have e: "handleDrop 0 0 100 100 fullHoldGame =
      pushHold 0 0 (updPiece 0 (\<lambda>p. p\<lparr>inPlayZone := False\<rparr>)
        (fullHoldGame\<lparr>currentPiece := None, lastHoldTime := 0, pendingSpawn := True\<rparr>))"
    using f ca by (simp add: handleDrop_def fullHoldGame_fields)
  have c1: "currentPiece (handleDrop 0 0 100 100 fullHoldGame) = None"
    unfolding e by (simp add: pushHold_def updPiece_def)
  have c2: "pieces (holds (handleDrop 0 0 100 100 fullHoldGame) ! 0) = [0]"
    unfolding e by (simp add: pushHold_def updPiece_def fullHoldGame_holds)
  have c3: "handleDrop 0 0 100 100 fullHoldGame \<noteq> fullHoldGame"
    using c1 fullHoldGame_fields(1) by auto
  show ?thesis using b d c1 c2 c3 fullHoldGame_fields(1) by simp
qed

section \<open>Release: drop resolution and hard drop\<close>

lemma getInter_setInter_same: "getInter (setInter sd i s) sd = i"
  by (cases sd) (simp_all add: getInter_def setInter_def)

lemma getInter_setInter_other: "sd' \<noteq> sd \<Longrightarrow> getInter (setInter sd i s) sd' = getInter s sd'"
  by (cases sd; cases sd') (simp_all add: getInter_def setInter_def)

lemma setInter_fields:
  "board (setInter sd i s) = board s"
  "currentPiece (setInter sd i s) = currentPiece s"
  "holds (setInter sd i s) = holds s"
  "store (setInter sd i s) = store s"
  "layout (setInter sd i s) = layout s"
  "boardWidth (setInter sd i s) = boardWidth s"
  "nextRef (setInter sd i s) = nextRef s"
  "rng (setInter sd i s) = rng s"
  "pendingSpawn (setInter sd i s) = pendingSpawn s"
  "lastHoldTime (setInter sd i s) = lastHoldTime s"
  "lastDropTime (setInter sd i s) = lastDropTime s"
  "dropInterval (setInter sd i s) = dropInterval s"
  by (cases sd; simp add: setInter_def)+

lemma updPiece_fields:
  "board (updPiece r f s) = board s"
  "currentPiece (updPiece r f s) = currentPiece s"
  "holds (updPiece r f s) = holds s"
  "layout (updPiece r f s) = layout s"
  "boardWidth (updPiece r f s) = boardWidth s"
  "nextRef (updPiece r f s) = nextRef s"
  "rng (updPiece r f s) = rng s"
  "pendingSpawn (updPiece r f s) = pendingSpawn s"
  "lastHoldTime (updPiece r f s) = lastHoldTime s"
  "lastDropTime (updPiece r f s) = lastDropTime s"
  "dropInterval (updPiece r f s) = dropInterval s"
  "interLeft (updPiece r f s) = interLeft s"
  "interRight (updPiece r f s) = interRight s"
  "store (updPiece r f s) r = f (store s r)"
  "r' \<noteq> r \<Longrightarrow> store (updPiece r f s) r' = store s r'"
  by (simp_all add: updPiece_def)

lemma getInter_updPiece: "getInter (updPiece r f s) sd = getInter s sd"
  by (cases sd) (simp_all add: getInter_def updPiece_def)

lemma canMove_cong:
  "currentPiece s' = currentPiece s \<Longrightarrow> board s' = board s \<Longrightarrow> store s' = store s \<Longrightarrow>
   canMove s' dx dy = canMove s dx dy"
  by (simp add: canMove_def split: option.splits)

lemma firstHoldAt_cong: "holds s' = holds s \<Longrightarrow> firstHoldAt s' x y = firstHoldAt s x y"
  by (simp add: firstHoldAt_def)

lemma inSpawnZone_cong:
  "layout s' = layout s \<Longrightarrow> boardWidth s' = boardWidth s \<Longrightarrow> inSpawnZone s' x y = inSpawnZone s x y"
  by (simp add: inSpawnZone_def)

text \<open>The branch of \<open>handStep\<close> taken by a hand that releases.\<close>

definition afterSmooth :: "hand_side \<Rightarrow> hand \<Rightarrow> real \<Rightarrow> real \<Rightarrow> game \<Rightarrow> game" where
  "afterSmooth sd hnd w h s =
     setInter sd ((getInter s sd)\<lparr>smoothedPos := Some (smoothMid (getInter s sd) hnd w h)\<rparr>) s"

definition released :: "interaction \<Rightarrow> interaction" where
  "released i = i\<lparr>istate := IDLE, target := None, grabOffset := None, grabAngle := None,
                  isPlayZoneGrab := False, currentRotation := None\<rparr>"

lemma handStep_release:
  assumes "istate (getInter s sd) = GRABBING \<or> istate (getInter s sd) = DRAGGING"
    and "pinchDist > RELEASE_THRESHOLD"
  shows "handStep sd (Some hnd) pinchDist w h currentTime now s =
     releaseStep sd (fst (smoothMid (getInter s sd) hnd w h)) (snd (smoothMid (getInter s sd) hnd w h))
       now (afterSmooth sd hnd w h s)"
  using assms by (auto simp: handStep_def Let_def afterSmooth_def)

lemma handStep_drag:
  assumes "istate (getInter s sd) = GRABBING \<or> istate (getInter s sd) = DRAGGING"
    and "\<not> pinchDist > RELEASE_THRESHOLD"
  shows "handStep sd (Some hnd) pinchDist w h currentTime now s =
     dragStep sd (fst (smoothMid (getInter s sd) hnd w h)) (snd (smoothMid (getInter s sd) hnd w h))
       currentTime (afterSmooth sd hnd w h s)"
  using assms by (auto simp: handStep_def Let_def afterSmooth_def)

lemma handStep_target:
  assumes "istate (getInter s sd) = IDLE \<or> istate (getInter s sd) = TARGETING"
  shows "handStep sd (Some hnd) pinchDist w h currentTime now s =
     Some (targetStep sd hnd (fst (smoothMid (getInter s sd) hnd w h))
        (snd (smoothMid (getInter s sd) hnd w h)) (pinchDist < GRAB_THRESHOLD) currentTime
        (afterSmooth sd hnd w h s))"
  using assms by (auto simp: handStep_def Let_def afterSmooth_def)

lemma afterSmooth_fields:
  "board (afterSmooth sd hnd w h s) = board s"
  "currentPiece (afterSmooth sd hnd w h s) = currentPiece s"
  "holds (afterSmooth sd hnd w h s) = holds s"
  "store (afterSmooth sd hnd w h s) = store s"
  "layout (afterSmooth sd hnd w h s) = layout s"
  "boardWidth (afterSmooth sd hnd w h s) = boardWidth s"
  "nextRef (afterSmooth sd hnd w h s) = nextRef s"
  "rng (afterSmooth sd hnd w h s) = rng s"
  by (simp_all add: afterSmooth_def setInter_fields)

lemma afterSmooth_inter:
  "getInter (afterSmooth sd hnd w h s) sd
     = (getInter s sd)\<lparr>smoothedPos := Some (smoothMid (getInter s sd) hnd w h)\<rparr>"
  "sd' \<noteq> sd \<Longrightarrow> getInter (afterSmooth sd hnd w h s) sd' = getInter s sd'"
  by (simp_all add: afterSmooth_def getInter_setInter_same getInter_setInter_other)

lemma releaseStep_drop:
  assumes "target (getInter s sd) = Some piece" and "\<not> isPlayZoneGrab (getInter s sd)"
  shows "releaseStep sd x y now s =
     Some (setInter sd
        (released (getInter (handleDrop now piece x y (updPiece piece (\<lambda>p. p\<lparr>isGrabbed := False\<rparr>) s)) sd))
        (handleDrop now piece x y (updPiece piece (\<lambda>p. p\<lparr>isGrabbed := False\<rparr>) s)))"
  using assms by (simp add: releaseStep_def released_def Let_def)

lemma releaseStep_hard:
  assumes "target (getInter s sd) = Some piece" and "isPlayZoneGrab (getInter s sd)"
    and "currentPiece s = Some piece"
  shows "releaseStep sd x y now s =
     (case hardDrop s of None \<Rightarrow> None
      | Some s1 \<Rightarrow> Some (setInter sd (released (getInter s1 sd)) s1))"
  using assms by (simp add: releaseStep_def released_def Let_def split: option.splits)

lemma releaseStep_stale:
  assumes "target (getInter s sd) = Some piece" and "isPlayZoneGrab (getInter s sd)"
    and "currentPiece s \<noteq> Some piece"
  shows "releaseStep sd x y now s = Some (setInter sd (released (getInter s sd)) s)"
  using assms by (simp add: releaseStep_def released_def Let_def)

text \<open>The piece behind \<open>r\<close> moved down by \<open>k\<close> rows.\<close>

definition dropBy :: "nat \<Rightarrow> ref \<Rightarrow> game \<Rightarrow> game" where
  "dropBy k r s = updPiece r (\<lambda>p. p\<lparr>py := py p + int k\<rparr>) s"

lemma dropBy_0: "dropBy 0 r s = s"
  by (simp add: dropBy_def updPiece_def)

lemma dropBy_Suc: "dropBy (Suc k) r s = dropBy k r (incY r s)"
  by (simp add: dropBy_def incY_def updPiece_def add.assoc)







lemma getInter_settle:
  "getInter (spawnPiece (clearLines (lockPiece s))) sd = getInter s sd"
  by (cases sd)
     (simp_all add: getInter_def spawnPiece_def clearLines_def lockPiece_def split: option.splits)

lemma settle_fields:
  "holds (spawnPiece (clearLines (lockPiece s))) = holds s"
  "currentPiece (spawnPiece (clearLines (lockPiece s))) = Some (nextRef s)"
  by (simp_all add: spawnPiece_def clearLines_def lockPiece_def split: option.splits)

lemma getInter_dropBy: "getInter (dropBy k r s) sd = getInter s sd"
  by (simp add: dropBy_def getInter_updPiece)

lemma handStep_hard_release:
  assumes st: "istate (getInter s sd) = GRABBING \<or> istate (getInter s sd) = DRAGGING"
    and rel: "pinchDist > RELEASE_THRESHOLD"
    and pz: "isPlayZoneGrab (getInter s sd)"
    and tg: "target (getInter s sd) = Some r"
    and cur: "currentPiece s = Some r"
    and land: "hardDropLoop (afterSmooth sd hnd w h s) = Some s2"
  shows "handStep sd (Some hnd) pinchDist w h currentTime now s =
     Some (setInter sd (released (getInter s2 sd)) (spawnPiece (clearLines (lockPiece s2))))"
proof -
  let ?s1 = "afterSmooth sd hnd w h s"
  have i1: "target (getInter ?s1 sd) = Some r" "isPlayZoneGrab (getInter ?s1 sd)"
    using tg pz by (simp_all add: afterSmooth_inter)
  have c1: "currentPiece ?s1 = Some r" using cur by (simp add: afterSmooth_fields)
  have hd: "hardDrop ?s1 = Some (spawnPiece (clearLines (lockPiece s2)))"
    using c1 land by (simp add: hardDrop_def)
  show ?thesis
    unfolding handStep_release[OF st rel] releaseStep_hard[OF i1 c1] hd
    by (simp add: getInter_settle)
qed


lemma releaseStep_none:
  assumes "target (getInter s sd) = None" and "\<not> isPlayZoneGrab (getInter s sd)"
  shows "releaseStep sd x y now s = Some (setInter sd (released (getInter s sd)) s)"
  using assms by (simp add: releaseStep_def released_def Let_def)

lemma handleDrop_nowhere:
  assumes "\<forall>hold \<in> set (holds s). \<not> inHoldBounds hold x y" and "\<not> inSpawnZone s x y"
  shows "handleDrop now piece x y s = s"
proof -
  have "firstHoldAt s x y = None" using assms(1) by (simp add: firstHoldAt_None)
  then show ?thesis using assms(2) by (rule handleDrop_outside)
qed

text \<open>
  Claim C6, as amended. For a release by a hand whose grab is not a play-zone grab, with the
  drop point (the hand's new smoothed position) outside the bounds of every hold and outside
  the spawn zone, the release changes neither the board, nor which piece is active, nor any
  hold, nor any field of any piece but the \<open>isGrabbed\<close> flag; the hand returns to \<open>IDLE\<close>.
\<close>

theorem release_outside_targets_unchanged:
  assumes st: "istate (getInter s sd) = GRABBING \<or> istate (getInter s sd) = DRAGGING"
    and rel: "pinchDist > RELEASE_THRESHOLD"
    and npz: "\<not> isPlayZoneGrab (getInter s sd)"
    and out: "\<forall>hold \<in> set (holds s). \<not> inHoldBounds hold (fst (smoothMid (getInter s sd) hnd w h))
                 (snd (smoothMid (getInter s sd) hnd w h))"
    and nsp: "\<not> inSpawnZone s (fst (smoothMid (getInter s sd) hnd w h))
                 (snd (smoothMid (getInter s sd) hnd w h))"
  shows "\<exists>s'. handStep sd (Some hnd) pinchDist w h currentTime now s = Some s'
      \<and> board s' = board s
      \<and> currentPiece s' = currentPiece s
      \<and> holds s' = holds s
      \<and> (\<forall>r. store s' r = (store s r)\<lparr>isGrabbed := isGrabbed (store s' r)\<rparr>)
      \<and> istate (getInter s' sd) = IDLE \<and> target (getInter s' sd) = None"
proof -
  let ?s1 = "afterSmooth sd hnd w h s"
  let ?x = "fst (smoothMid (getInter s sd) hnd w h)"
  let ?y = "snd (smoothMid (getInter s sd) hnd w h)"
  have npz1: "\<not> isPlayZoneGrab (getInter ?s1 sd)" using npz by (simp add: afterSmooth_inter)
  have tg1: "target (getInter ?s1 sd) = target (getInter s sd)" by (simp add: afterSmooth_inter)
  show ?thesis
  proof (cases "target (getInter s sd)")
    case None
    let ?s' = "setInter sd (released (getInter ?s1 sd)) ?s1"
    have "handStep sd (Some hnd) pinchDist w h currentTime now s = Some ?s'"
      unfolding handStep_release[OF st rel] using None tg1 npz1 by (simp add: releaseStep_none)
    moreover have "board ?s' = board s" "currentPiece ?s' = currentPiece s" "holds ?s' = holds s"
        "store ?s' = store s"
      by (simp_all add: setInter_fields afterSmooth_fields)
    moreover have "istate (getInter ?s' sd) = IDLE" "target (getInter ?s' sd) = None"
      by (simp_all add: getInter_setInter_same released_def)
    ultimately show ?thesis by simp
  next
    case (Some piece)
    let ?s2 = "updPiece piece (\<lambda>p. p\<lparr>isGrabbed := False\<rparr>) ?s1"
    have o2: "\<forall>hold \<in> set (holds ?s2). \<not> inHoldBounds hold ?x ?y"
      using out by (simp add: updPiece_fields afterSmooth_fields)
    have n2: "\<not> inSpawnZone ?s2 ?x ?y"
      using nsp inSpawnZone_cong[of ?s2 s ?x ?y] by (simp add: updPiece_fields afterSmooth_fields)
    have hd: "handleDrop now piece ?x ?y ?s2 = ?s2"
      using o2 n2 by (rule handleDrop_nowhere)
    let ?s' = "setInter sd (released (getInter ?s2 sd)) ?s2"
    have "handStep sd (Some hnd) pinchDist w h currentTime now s = Some ?s'"
      unfolding handStep_release[OF st rel] using Some tg1 npz1 by (simp add: releaseStep_drop hd)
    moreover have "board ?s' = board s" "currentPiece ?s' = currentPiece s" "holds ?s' = holds s"
      by (simp_all add: setInter_fields updPiece_fields afterSmooth_fields)
    moreover have "\<forall>r. store ?s' r = (store s r)\<lparr>isGrabbed := isGrabbed (store ?s' r)\<rparr>"
      by (simp add: setInter_fields updPiece_def afterSmooth_fields)
    moreover have "istate (getInter ?s' sd) = IDLE" "target (getInter ?s' sd) = None"
      by (simp_all add: getInter_setInter_same released_def)
    ultimately show ?thesis by simp
  qed
qed

text \<open>
  Two concrete games on a 1280 by 720 canvas, each with the right hand dragging the active
  O piece: in \<open>playGrabGame\<close> the piece stands on the bottom row and the grab is a play-zone
  grab, in \<open>spawnGrabGame\<close> the piece is still at its start position and was grabbed in the
  spawn zone. \<open>openHand\<close> is a hand whose smoothed midpoint is \<open>(300, 400)\<close>, away from every
  hold and from the spawn zone, with thumb and index 0.2 apart.
\<close>

definition openHand :: hand where
  "openHand = \<lparr>wrist = (1 / 2, 9 / 10), thumbTip = (213 / 320, 5 / 9),
               indexTip = (277 / 320, 5 / 9), middleMCP = (1 / 2, 7 / 10)\<rparr>"

definition draggingRight :: "bool \<Rightarrow> interaction" where
  "draggingRight pz =
     idleInteraction\<lparr>istate := DRAGGING, target := Some 0, grabOffset := Some (0, 0),
                     smoothedPos := Some (300, 400), isPlayZoneGrab := pz\<rparr>"

definition playGrabGame :: game where
  "playGrabGame =
     (computeLayout 1280 720 (newGame (sconst Tet_O)))
       \<lparr>store := (\<lambda>r. newPiece Tet_I)(0 := (landed Tet_O)\<lparr>inPlayZone := True\<rparr>),
        interRight := draggingRight True\<rparr>"

definition spawnGrabGame :: game where
  "spawnGrabGame =
     (computeLayout 1280 720 (newGame (sconst Tet_O)))
       \<lparr>store := (\<lambda>r. newPiece Tet_I)(0 := (newPiece Tet_O)\<lparr>isGrabbed := True\<rparr>),
        interRight := draggingRight False\<rparr>"

lemma layout_1280_holds:
  "holds (computeLayout 1280 720 (newGame d)) =
     [\<lparr>pieces = [], htype = None, hx = 40, hy = 60, isTargeted = False, side = Left\<rparr>,
      \<lparr>pieces = [], htype = None, hx = 40, hy = 150, isTargeted = False, side = Left\<rparr>,
      \<lparr>pieces = [], htype = None, hx = 40, hy = 240, isTargeted = False, side = Left\<rparr>,
      \<lparr>pieces = [], htype = None, hx = 1150, hy = 60, isTargeted = False, side = Right\<rparr>,
      \<lparr>pieces = [], htype = None, hx = 1150, hy = 150, isTargeted = False, side = Right\<rparr>,
      \<lparr>pieces = [], htype = None, hx = 1150, hy = 240, isTargeted = False, side = Right\<rparr>]"
  by (simp add: computeLayout_def layoutHolds_def newGame_def spawnPiece_def
      emptyHold_def HOLD_SLOT_WIDTH_def HOLD_SLOT_HEIGHT_def Let_def)

lemma layout_1280_zone:
  "inSpawnZone (computeLayout 1280 720 (newGame d)) x y
     = (520 \<le> x \<and> x \<le> 760 \<and> - 40 \<le> y \<and> y \<le> 180)"
  by (simp add: inSpawnZone_def computeLayout_def newGame_def spawnPiece_def Let_def
      COLS_def ROWS_def CELL_SIZE_def SPAWN_ZONE_HEIGHT_def)

lemma layout_1280_fields:
  "board (computeLayout 1280 720 (newGame d)) = createEmptyBoard"
  "currentPiece (computeLayout 1280 720 (newGame d)) = Some 0"
  "nextRef (computeLayout 1280 720 (newGame d)) = 1"
  by (simp_all add: computeLayout_def newGame_def spawnPiece_def Let_def)

lemma no_hold_at_300_400:
  "holds s = holds (computeLayout 1280 720 (newGame d)) \<Longrightarrow>
   \<forall>hold \<in> set (holds s). \<not> inHoldBounds hold 300 400"
  by (simp add: layout_1280_holds inHoldBounds_def HOLD_SLOT_WIDTH_def HOLD_SLOT_HEIGHT_def)

lemma smoothMid_openHand:
  "smoothMid (draggingRight pz) openHand 1280 720 = (300, 400)"
  by (simp add: smoothMid_def draggingRight_def idleInteraction_def openHand_def Let_def)

lemma playGrabGame_fields:
  "getInter playGrabGame Right = draggingRight True"
  "holds playGrabGame = holds (computeLayout 1280 720 (newGame (sconst Tet_O)))"
  "board playGrabGame = createEmptyBoard"
  "currentPiece playGrabGame = Some 0"
  "nextRef playGrabGame = 1"
  "store playGrabGame 0 = (landed Tet_O)\<lparr>inPlayZone := True\<rparr>"
  "inSpawnZone playGrabGame x y = (520 \<le> x \<and> x \<le> 760 \<and> - 40 \<le> y \<and> y \<le> 180)"
  using layout_1280_zone[of "sconst Tet_O" x y]
  by (simp_all add: playGrabGame_def getInter_def layout_1280_fields inSpawnZone_def)

lemma spawnGrabGame_fields:
  "getInter spawnGrabGame Right = draggingRight False"
  "holds spawnGrabGame = holds (computeLayout 1280 720 (newGame (sconst Tet_O)))"
  "board spawnGrabGame = createEmptyBoard"
  "currentPiece spawnGrabGame = Some 0"
  "store spawnGrabGame 0 = (newPiece Tet_O)\<lparr>isGrabbed := True\<rparr>"
  "inSpawnZone spawnGrabGame x y = (520 \<le> x \<and> x \<le> 760 \<and> - 40 \<le> y \<and> y \<le> 180)"
  using layout_1280_zone[of "sconst Tet_O" x y]
  by (simp_all add: spawnGrabGame_def getInter_def layout_1280_fields inSpawnZone_def)

lemma draggingRight_fields:
  "istate (draggingRight pz) = DRAGGING"
  "target (draggingRight pz) = Some 0"
  "isPlayZoneGrab (draggingRight pz) = pz"
  by (simp_all add: draggingRight_def)

theorem release_outside_targets_unchanged_witness:
  "istate (getInter spawnGrabGame Right) = DRAGGING
   \<and> 1 / 5 > RELEASE_THRESHOLD
   \<and> \<not> isPlayZoneGrab (getInter spawnGrabGame Right)
   \<and> smoothMid (getInter spawnGrabGame Right) openHand 1280 720 = (300, 400)
   \<and> list_all (\<lambda>hold. \<not> inHoldBounds hold 300 400) (holds spawnGrabGame)
   \<and> \<not> inSpawnZone spawnGrabGame 300 400
   \<and> (\<exists>s'. handStep Right (Some openHand) (1 / 5) 1280 720 0 0 spawnGrabGame = Some s'
         \<and> board s' = createEmptyBoard \<and> currentPiece s' = Some 0
         \<and> holds s' = holds spawnGrabGame \<and> istate (getInter s' Right) = IDLE)"
proof -
  have st: "istate (getInter spawnGrabGame Right) = GRABBING
      \<or> istate (getInter spawnGrabGame Right) = DRAGGING"
    by (simp add: spawnGrabGame_fields draggingRight_fields)
  have rel: "1 / 5 > RELEASE_THRESHOLD" by (simp add: RELEASE_THRESHOLD_def)
  have npz: "\<not> isPlayZoneGrab (getInter spawnGrabGame Right)"
    by (simp add: spawnGrabGame_fields draggingRight_fields)
  have sm: "smoothMid (getInter spawnGrabGame Right) openHand 1280 720 = (300, 400)"
    by (simp add: spawnGrabGame_fields smoothMid_openHand)
  have out: "\<forall>hold \<in> set (holds spawnGrabGame). \<not> inHoldBounds hold 300 400"
    by (rule no_hold_at_300_400) (rule spawnGrabGame_fields)
  have nsp: "\<not> inSpawnZone spawnGrabGame 300 400" by (simp add: spawnGrabGame_fields)
  have "\<exists>s'. handStep Right (Some openHand) (1 / 5) 1280 720 0 0 spawnGrabGame = Some s'
      \<and> board s' = board spawnGrabGame
      \<and> currentPiece s' = currentPiece spawnGrabGame
      \<and> holds s' = holds spawnGrabGame
      \<and> (\<forall>r. store s' r = (store spawnGrabGame r)\<lparr>isGrabbed := isGrabbed (store s' r)\<rparr>)
      \<and> istate (getInter s' Right) = IDLE \<and> target (getInter s' Right) = None"
    using out nsp
    by (intro release_outside_targets_unchanged[OF st rel npz]) (simp_all add: sm)
  then show ?thesis
    using rel npz sm out nsp
    by (auto simp: spawnGrabGame_fields draggingRight_fields list_all_iff)
qed

lemma playGrab_lands:
  "hardDropLoop (afterSmooth Right openHand 1280 720 playGrabGame)
     = Some (afterSmooth Right openHand 1280 720 playGrabGame)"
proof -
  let ?s1 = "afterSmooth Right openHand 1280 720 playGrabGame"
  have "canMove ?s1 0 1 = canMove playGrabGame 0 1"
    by (rule canMove_cong) (simp_all add: afterSmooth_fields)
  moreover have "\<not> canMove playGrabGame 0 1"
    using shapeFits_spawn[of Tet_O "int ROWS - int (length (SHAPES Tet_O)) + 1"]
    by (simp add: canMove_def playGrabGame_fields landed_def newPiece_def)
  ultimately show ?thesis by (subst hardDropLoop.simps) simp
qed

lemma playGrab_result:
  "handStep Right (Some openHand) (1 / 5) 1280 720 0 0 playGrabGame =
     Some (setInter Right (released (getInter (afterSmooth Right openHand 1280 720 playGrabGame) Right))
       (spawnPiece (clearLines (lockPiece (afterSmooth Right openHand 1280 720 playGrabGame)))))"
  by (rule handStep_hard_release[OF _ _ _ _ _ playGrab_lands])
     (simp_all add: playGrabGame_fields draggingRight_fields RELEASE_THRESHOLD_def)

lemma playGrab_board:
  "board (spawnPiece (clearLines (lockPiece (afterSmooth Right openHand 1280 720 playGrabGame))))
     = lockCells createEmptyBoard (landed Tet_O)"
proof -
  let ?s1 = "afterSmooth Right openHand 1280 720 playGrabGame"
  have "lockCells createEmptyBoard (store ?s1 0) = lockCells createEmptyBoard (landed Tet_O)"
    by (rule lockCells_cong) (simp_all add: afterSmooth_fields playGrabGame_fields)
  then have "board (lockPiece ?s1) = lockCells createEmptyBoard (landed Tet_O)"
    by (simp add: lockPiece_def afterSmooth_fields playGrabGame_fields)
  then show ?thesis
    using landed_rows[of Tet_O] by (simp add: spawnPiece_def clearLines_def clearLinesFrom_no_full)
qed

text \<open>
  Claim C6 as stated fails for a play-zone grab: the release at \<open>(300, 400)\<close>, outside every
  hold and outside the spawn zone, locks the piece into the board and spawns a new piece.
\<close>

theorem play_zone_release_changes_state_counterexample:
  "istate (getInter playGrabGame Right) = DRAGGING
   \<and> 1 / 5 > RELEASE_THRESHOLD
   \<and> smoothMid (getInter playGrabGame Right) openHand 1280 720 = (300, 400)
   \<and> list_all (\<lambda>hold. \<not> inHoldBounds hold 300 400) (holds playGrabGame)
   \<and> \<not> inSpawnZone playGrabGame 300 400
   \<and> board playGrabGame = createEmptyBoard
   \<and> currentPiece playGrabGame = Some 0
   \<and> map_option currentPiece (handStep Right (Some openHand) (1 / 5) 1280 720 0 0 playGrabGame)
        = Some (Some 1)
   \<and> map_option board (handStep Right (Some openHand) (1 / 5) 1280 720 0 0 playGrabGame)
        = Some (lockCells createEmptyBoard (landed Tet_O))
   \<and> lockCells createEmptyBoard (landed Tet_O) \<noteq> createEmptyBoard"
proof -
  have out: "\<forall>hold \<in> set (holds playGrabGame). \<not> inHoldBounds hold 300 400"
    by (rule no_hold_at_300_400) (rule playGrabGame_fields)
  have c: "map_option currentPiece (handStep Right (Some openHand) (1 / 5) 1280 720 0 0 playGrabGame)
        = Some (Some 1)"
    unfolding playGrab_result
    by (simp add: setInter_fields settle_fields afterSmooth_fields playGrabGame_fields)
  have b: "map_option board (handStep Right (Some openHand) (1 / 5) 1280 720 0 0 playGrabGame)
        = Some (lockCells createEmptyBoard (landed Tet_O))"
    unfolding playGrab_result by (simp add: setInter_fields playGrab_board)
  have "Some Tet_O \<in> set (lockCells createEmptyBoard (landed Tet_O) ! (ROWS - 1))"
    using landed_rows[of Tet_O] by simp
  moreover have "Some Tet_O \<notin> set (createEmptyBoard ! (ROWS - 1))"
    by (simp add: createEmptyBoard_def emptyRow_def ROWS_def)
  ultimately have d: "lockCells createEmptyBoard (landed Tet_O) \<noteq> createEmptyBoard"
    by auto
  show ?thesis
    using out c b d
    by (simp add: playGrabGame_fields draggingRight_fields smoothMid_openHand RELEASE_THRESHOLD_def
        list_all_iff)
qed


section \<open>Hysteresis of the pinch distance\<close>

lemma hardDropLoop_result:
  assumes "hardDropLoop s = Some y"
  shows "\<exists>k. y = (case currentPiece s of None \<Rightarrow> s | Some r \<Rightarrow> dropBy k r s)"
  using assms
proof (induction rule: hardDropLoop.raw_induct[rotated 1, consumes 1])
  case (1 f s y)
  show ?case
  proof (cases "canMove s 0 1")
    case False
    then have "y = s" using 1(2) by simp
    then show ?thesis by (cases "currentPiece s") (auto intro: exI[of _ 0] simp: dropBy_0)
  next
    case True
    then obtain r where r: "currentPiece s = Some r" by (cases "currentPiece s") (auto simp: canMove_def)
    have "f (incY r s) = Some y" using 1(2) True r by simp
    then obtain k where "y = (case currentPiece (incY r s) of None \<Rightarrow> incY r s | Some r' \<Rightarrow> dropBy k r' (incY r s))"
      using 1(1) by blast
    then have "y = dropBy (Suc k) r s" using r by (simp add: incY_def updPiece_fields dropBy_Suc)
    then show ?thesis using r by auto
  qed
qed

lemma getInter_handleDrop: "getInter (handleDrop now piece x y s) sd = getInter s sd"
  by (cases sd)
     (simp_all add: getInter_def handleDrop_def Let_def pushHold_def updPiece_def removeFromHolds_def
        swapCurrent_def split: option.splits)

lemma getInter_hardDrop:
  assumes "hardDrop s = Some s'"
  shows "getInter s' sd = getInter s sd"
proof (cases "currentPiece s")
  case None
  then show ?thesis using assms by (simp add: hardDrop_def)
next
  case (Some r)
  then obtain s1 where s1: "hardDropLoop s = Some s1" "s' = spawnPiece (clearLines (lockPiece s1))"
    using assms by (auto simp: hardDrop_def split: bind_splits)
  obtain k where "s1 = dropBy k r s" using hardDropLoop_result[OF s1(1)] Some by auto
  then show ?thesis using s1(2) by (simp add: getInter_settle getInter_dropBy)
qed

lemma releaseStep_other:
  assumes "releaseStep sd' x y now s = Some s'" and "sd \<noteq> sd'"
  shows "getInter s' sd = getInter s sd"
  using assms
  by (auto simp: releaseStep_def Let_def getInter_setInter_other getInter_handleDrop
        getInter_updPiece getInter_hardDrop split: option.splits if_splits bind_splits)

lemma targetStep_other:
  "sd \<noteq> sd' \<Longrightarrow> getInter (targetStep sd' hnd x y g t s) sd = getInter s sd"
  by (simp add: targetStep_def Let_def getInter_setInter_other getInter_updPiece split: option.splits)

lemma getInter_rotatePiece: "getInter (rotatePiece s p) sd = getInter s sd"
  by (simp add: rotatePiece_def getInter_updPiece split: option.splits)

lemma moveGesture_other:
  "sd \<noteq> sd' \<Longrightarrow> getInter (moveGesture sd' a b x t s) sd = getInter s sd"
  by (simp add: moveGesture_def Let_def getInter_setInter_other getInter_updPiece split: option.splits)

lemma rotateGesture_other:
  "sd \<noteq> sd' \<Longrightarrow> getInter (rotateGesture sd' a b dx dy px0 py0 t s) sd = getInter s sd"
  by (simp add: rotateGesture_def Let_def getInter_setInter_other getInter_rotatePiece)

lemma freeDrag_other:
  "sd \<noteq> sd' \<Longrightarrow> getInter (freeDrag sd' x y s) sd = getInter s sd"
  by (cases sd)
     (auto simp: freeDrag_def Let_def getInter_def updPiece_def split: option.splits prod.splits)

lemma dragStep_other:
  assumes "dragStep sd' x y t s = Some s'" and "sd \<noteq> sd'"
  shows "getInter s' sd = getInter s sd"
  using assms
  by (auto simp: dragStep_def Let_def getInter_setInter_other moveGesture_other
        rotateGesture_other freeDrag_other split: option.splits if_splits)

lemma handStep_other:
  assumes "handStep sd' hand0 d w h t now s = Some s'" and "sd \<noteq> sd'"
  shows "getInter s' sd = getInter s sd"
proof (cases hand0)
  case None
  then show ?thesis
    using assms
    by (auto simp: handStep_def Let_def getInter_setInter_other getInter_updPiece split: option.splits)
next
  case (Some hnd)
  have a: "getInter (afterSmooth sd' hnd w h s) sd = getInter s sd"
    using assms(2) by (simp add: afterSmooth_inter)
  consider (t) "istate (getInter s sd') = IDLE \<or> istate (getInter s sd') = TARGETING"
    | (r) "istate (getInter s sd') = GRABBING \<or> istate (getInter s sd') = DRAGGING" "d > RELEASE_THRESHOLD"
    | (d) "istate (getInter s sd') = GRABBING \<or> istate (getInter s sd') = DRAGGING" "\<not> d > RELEASE_THRESHOLD"
    by (cases "istate (getInter s sd')") auto
  then show ?thesis
  proof cases
    case t
    then show ?thesis
      using assms Some a by (auto simp: handStep_target targetStep_other)
  next
    case r
    then show ?thesis
      using assms Some a releaseStep_other[of sd' _ _ now "afterSmooth sd' hnd w h s" s' sd]
      by (simp add: handStep_release)
  next
    case d
    then show ?thesis
      using assms Some a dragStep_other[of sd' _ _ t "afterSmooth sd' hnd w h s" s' sd]
      by (simp add: handStep_drag)
  qed
qed

text \<open>The two families of interaction states, and the hysteresis band of the pinch distance.\<close>

definition grabFamily :: "INTERACTION_STATES \<Rightarrow> bool" where
  "grabFamily st = (st = GRABBING \<or> st = DRAGGING)"

definition inBand :: "real \<Rightarrow> bool" where
  "inBand d = (GRAB_THRESHOLD < d \<and> d < RELEASE_THRESHOLD)"

lemma retarget_state:
  "istate (retarget s x y i) = IDLE \<or> istate (retarget s x y i) = TARGETING"
  by (simp add: retarget_def split: option.splits prod.splits)

lemma targetStep_no_grab:
  "istate (getInter (targetStep sd hnd x y False t s) sd) = IDLE
   \<or> istate (getInter (targetStep sd hnd x y False t s) sd) = TARGETING"
  using retarget_state[of s x y "getInter s sd"]
  by (auto simp: targetStep_def Let_def getInter_setInter_same split: option.splits)

lemma moveGesture_own:
  "istate (getInter (moveGesture sd a b x t s) sd) = istate (getInter s sd)"
  "target (getInter (moveGesture sd a b x t s) sd) = target (getInter s sd)"
  by (simp_all add: moveGesture_def Let_def getInter_setInter_same split: option.splits)

lemma rotateGesture_own:
  "istate (getInter (rotateGesture sd a b dx dy px0 py0 t s) sd) = istate (getInter s sd)"
  "target (getInter (rotateGesture sd a b dx dy px0 py0 t s) sd) = target (getInter s sd)"
  by (simp_all add: rotateGesture_def Let_def getInter_setInter_same getInter_rotatePiece)

lemma freeDrag_own:
  "getInter (freeDrag sd x y s) sd = getInter s sd"
  by (cases sd)
     (auto simp: freeDrag_def Let_def getInter_def updPiece_def split: option.splits prod.splits)

lemma dragStep_own:
  assumes "dragStep sd x y t s = Some s'"
  shows "istate (getInter s' sd) = DRAGGING \<and> target (getInter s' sd) = target (getInter s sd)"
  using assms
  by (auto simp: dragStep_def Let_def getInter_setInter_same moveGesture_own rotateGesture_own
        freeDrag_own split: option.splits if_splits)

lemma handStep_in_band:
  assumes "handStep sd (Some hnd) d w h t now s = Some s'" and "inBand d"
  shows "(grabFamily (istate (getInter s sd)) \<longrightarrow>
            istate (getInter s' sd) = DRAGGING \<and> target (getInter s' sd) = target (getInter s sd))
       \<and> (\<not> grabFamily (istate (getInter s sd)) \<longrightarrow>
            istate (getInter s' sd) = IDLE \<or> istate (getInter s' sd) = TARGETING)"
proof (cases "grabFamily (istate (getInter s sd))")
  case True
  then have g: "istate (getInter s sd) = GRABBING \<or> istate (getInter s sd) = DRAGGING"
    by (simp add: grabFamily_def)
  have nr: "\<not> d > RELEASE_THRESHOLD" using assms(2) by (simp add: inBand_def)
  have "dragStep sd (fst (smoothMid (getInter s sd) hnd w h)) (snd (smoothMid (getInter s sd) hnd w h))
      t (afterSmooth sd hnd w h s) = Some s'"
    using assms(1) unfolding handStep_drag[OF g nr] .
  then show ?thesis using True dragStep_own by (fastforce simp: afterSmooth_inter)
next
  case False
  then have g: "istate (getInter s sd) = IDLE \<or> istate (getInter s sd) = TARGETING"
    by (cases "istate (getInter s sd)") (simp_all add: grabFamily_def)
  have ng: "\<not> d < GRAB_THRESHOLD" using assms(2) by (simp add: inBand_def)
  have "s' = targetStep sd hnd (fst (smoothMid (getInter s sd) hnd w h))
      (snd (smoothMid (getInter s sd) hnd w h)) False t (afterSmooth sd hnd w h s)"
    using assms(1) ng unfolding handStep_target[OF g] by simp
  then have "istate (getInter s' sd) = IDLE \<or> istate (getInter s' sd) = TARGETING"
    using targetStep_no_grab by blast
  then show ?thesis using False by simp
qed

lemma fold_getInter:
  assumes "\<And>x s. getInter (f x s) sd = getInter s sd"
  shows "getInter (fold f xs s) sd = getInter s sd"
  by (induction xs arbitrary: s) (simp_all add: assms)

lemma getInter_easeGrabbed: "getInter (easeGrabbed r s) sd = getInter s sd"
  by (simp add: easeGrabbed_def getInter_updPiece)

lemma getInter_holdFeedback: "getInter (holdFeedback s) sd = getInter s sd"
  by (cases sd) (auto simp: holdFeedback_def getInter_def split: option.splits prod.splits bool.splits)

lemma getInter_computeLayout: "getInter (computeLayout cw ch s) sd = getInter s sd"
  by (cases sd) (simp_all add: computeLayout_def getInter_def Let_def)

lemma getInter_enterPlayZone: "getInter (enterPlayZone s) sd = getInter s sd"
  by (simp add: enterPlayZone_def getInter_updPiece split: option.splits)

lemma getInter_spawnPiece: "getInter (spawnPiece s) sd = getInter s sd"
  by (cases sd) (simp_all add: spawnPiece_def getInter_def)

lemma getInter_deferredSpawn: "getInter (deferredSpawn t s) sd = getInter s sd"
  by (cases sd) (simp_all add: deferredSpawn_def getInter_def spawnPiece_def)

lemma getInter_dropPiece: "getInter (dropPiece s) sd = getInter s sd"
  by (simp add: dropPiece_def Let_def incY_def getInter_updPiece getInter_settle split: option.splits)

lemma getInter_autoDrop: "getInter (autoDrop t s) sd = getInter s sd"
proof -
  have "getInter (s\<lparr>lastDropTime := t\<rparr>) sd = getInter s sd"
    by (cases sd) (simp_all add: getInter_def)
  then show ?thesis
    by (simp add: autoDrop_def getInter_dropPiece split: option.splits)
qed

lemma getInter_placeCurrent: "getInter (placeCurrent s) sd = getInter s sd"
  by (simp add: placeCurrent_def Let_def getInter_updPiece split: option.splits)

lemma getInter_placeHeld: "getInter (placeHeld hold s) sd = getInter s sd"
  unfolding placeHeld_def
  by (rule fold_getInter) (simp add: Let_def getInter_updPiece split: prod.splits)

lemma getInter_updatePiecePositions: "getInter (updatePiecePositions s) sd = getInter s sd"
  unfolding updatePiecePositions_def
  by (simp add: fold_getInter getInter_placeHeld getInter_placeCurrent)

lemma getInter_dragReset:
  "getInter (s\<lparr>isDraggingPiece := a, draggedPiece := b\<rparr>) sd = getInter s sd"
  by (cases sd) (simp_all add: getInter_def)

lemma handleHandInteraction_in_band:
  assumes "handleHandInteraction hs pd w h t ck s = Some s'"
    and "hs sd = Some hnd" and "inBand (pd sd)"
  shows "(grabFamily (istate (getInter s sd)) \<longrightarrow>
            istate (getInter s' sd) = DRAGGING \<and> target (getInter s' sd) = target (getInter s sd))
       \<and> (\<not> grabFamily (istate (getInter s sd)) \<longrightarrow>
            istate (getInter s' sd) = IDLE \<or> istate (getInter s' sd) = TARGETING)"
proof -
  let ?s0 = "s\<lparr>isDraggingPiece := False, draggedPiece := None\<rparr>"
  obtain s1 s2 where s1: "handStep Left (hs Left) (pd Left) w h t (ck Left) ?s0 = Some s1"
    and s2: "handStep Right (hs Right) (pd Right) w h t (ck Right) s1 = Some s2"
    and s': "s' = holdFeedback (fold easeGrabbed (allPieces s2) s2)"
    using assms(1) by (auto simp: handleHandInteraction_def split: bind_splits)
  have e: "getInter s' sd = getInter s2 sd"
    unfolding s' by (simp add: getInter_holdFeedback fold_getInter getInter_easeGrabbed)
  have z: "getInter ?s0 sd = getInter s sd" by (rule getInter_dragReset)
  show ?thesis
  proof (cases sd)
    case Left
    have "getInter s2 sd = getInter s1 sd" using handStep_other[OF s2] Left by simp
    then show ?thesis
      using handStep_in_band[of Left hnd "pd Left" w h t "ck Left" ?s0 s1] s1 assms(2,3) Left e z
      by simp
  next
    case Right
    have "getInter s1 sd = getInter ?s0 sd" using handStep_other[OF s1] Right by simp
    then show ?thesis
      using handStep_in_band[of Right hnd "pd Right" w h t "ck Right" s1 s2] s2 assms(2,3) Right e z
      by simp
  qed
qed

lemma update_in_band:
  assumes "update t (Some hs) pd cw ch ck s = Some s'"
    and "hs sd = Some hnd" and "inBand (pd sd)"
  shows "(grabFamily (istate (getInter s sd)) \<longrightarrow>
            istate (getInter s' sd) = DRAGGING \<and> target (getInter s' sd) = target (getInter s sd))
       \<and> (\<not> grabFamily (istate (getInter s sd)) \<longrightarrow>
            istate (getInter s' sd) = IDLE \<or> istate (getInter s' sd) = TARGETING)"
proof -
  let ?s1 = "deferredSpawn t (enterPlayZone (computeLayout cw ch s))"
  obtain s2 where s2: "handleHandInteraction hs pd cw ch t ck ?s1 = Some s2"
    and s': "s' = updatePiecePositions (autoDrop t s2)"
    using assms(1) by (auto simp: update_def Let_def split: bind_splits)
  have a: "getInter ?s1 sd = getInter s sd"
    by (simp add: getInter_deferredSpawn getInter_enterPlayZone getInter_computeLayout)
  have b: "getInter s' sd = getInter s2 sd"
    unfolding s' by (simp add: getInter_updatePiecePositions getInter_autoDrop)
  show ?thesis
    using handleHandInteraction_in_band[OF s2 assms(2,3)] a b by simp
qed

text \<open>
  One frame of input: the arguments of one \<open>update\<close> call (timestamp, hands, pinch
  distances, canvas width and height) and the clock readings during it. \<open>runFrames\<close> feeds a
  list of frames to the game; \<open>bandFrame sd f\<close> says that in frame \<open>f\<close> the hand \<open>sd\<close> is tracked
  and its pinch distance lies strictly between the two thresholds.
\<close>

type_synonym frame =
  "real \<times> (hand_side \<Rightarrow> hand option) option \<times> (hand_side \<Rightarrow> real) \<times> real \<times> real \<times> (hand_side \<Rightarrow> real)"

definition updateFrame :: "frame \<Rightarrow> game \<Rightarrow> game option" where
  "updateFrame f s = (case f of (t, hs, pd, cw, ch, ck) \<Rightarrow> update t hs pd cw ch ck s)"

fun runFrames :: "frame list \<Rightarrow> game \<Rightarrow> game option" where
  "runFrames [] s = Some s"
| "runFrames (f # fs) s = (case updateFrame f s of None \<Rightarrow> None | Some s1 \<Rightarrow> runFrames fs s1)"

definition bandFrame :: "hand_side \<Rightarrow> frame \<Rightarrow> bool" where
  "bandFrame sd f =
     (case f of (t, hs, pd, cw, ch, ck) \<Rightarrow>
        (case hs of None \<Rightarrow> False | Some H \<Rightarrow> H sd \<noteq> None) \<and> inBand (pd sd))"

lemma updateFrame_in_band:
  assumes "updateFrame f s = Some s'" and "bandFrame sd f"
  shows "(grabFamily (istate (getInter s sd)) \<longrightarrow>
            istate (getInter s' sd) = DRAGGING \<and> target (getInter s' sd) = target (getInter s sd))
       \<and> (\<not> grabFamily (istate (getInter s sd)) \<longrightarrow>
            istate (getInter s' sd) = IDLE \<or> istate (getInter s' sd) = TARGETING)"
proof -
  obtain t hs pd cw ch ck where f: "f = (t, hs, pd, cw, ch, ck)" by (cases f) auto
  obtain H hnd where H: "hs = Some H" "H sd = Some hnd" and b: "inBand (pd sd)"
    using assms(2) by (auto simp: bandFrame_def f split: option.splits)
  have "update t (Some H) pd cw ch ck s = Some s'"
    using assms(1) by (simp add: updateFrame_def f H)
  then show ?thesis using H(2) b by (rule update_in_band)
qed

lemma runFrames_in_band:
  assumes "\<forall>f \<in> set fs. bandFrame sd f" and "runFrames fs s = Some s'"
  shows "grabFamily (istate (getInter s' sd)) = grabFamily (istate (getInter s sd))
       \<and> (grabFamily (istate (getInter s sd)) \<longrightarrow> target (getInter s' sd) = target (getInter s sd))"
  using assms
proof (induction fs arbitrary: s)
  case Nil
  then show ?case by simp
next
  case (Cons f fs)
  then obtain s1 where s1: "updateFrame f s = Some s1" "runFrames fs s1 = Some s'"
    by (auto split: option.splits)
  have st: "(grabFamily (istate (getInter s sd)) \<longrightarrow>
            istate (getInter s1 sd) = DRAGGING \<and> target (getInter s1 sd) = target (getInter s sd))
       \<and> (\<not> grabFamily (istate (getInter s sd)) \<longrightarrow>
            istate (getInter s1 sd) = IDLE \<or> istate (getInter s1 sd) = TARGETING)"
  proof (rule updateFrame_in_band[OF s1(1)])
    show "bandFrame sd f" using Cons.prems(1) by simp
  qed
  have ih: "grabFamily (istate (getInter s' sd)) = grabFamily (istate (getInter s1 sd))
       \<and> (grabFamily (istate (getInter s1 sd)) \<longrightarrow> target (getInter s' sd) = target (getInter s1 sd))"
    using Cons.IH[OF _ s1(2)] Cons.prems(1) by simp
  show ?case using st ih by (auto simp: grabFamily_def)
qed

text \<open>
  Claim C5. Along any sequence of frames in each of which the hand \<open>sd\<close> is tracked with a
  pinch distance strictly between the grab threshold and the release threshold, after any
  number \<open>n\<close> of these frames the hand is in the family \<open>{GRABBING, DRAGGING}\<close> if and only if it
  was at the start: no grab starts and no release happens. A hand that was holding a target
  still holds the same target.
\<close>

theorem hysteresis_band_keeps_family:
  assumes "\<forall>f \<in> set fs. bandFrame sd f" and "runFrames (take n fs) s = Some s'"
  shows "grabFamily (istate (getInter s' sd)) = grabFamily (istate (getInter s sd))
       \<and> (grabFamily (istate (getInter s sd)) \<longrightarrow> target (getInter s' sd) = target (getInter s sd))"
proof -
  have "\<forall>f \<in> set (take n fs). bandFrame sd f"
    using assms(1) by (meson in_set_takeD)
  then show ?thesis using assms(2) by (rule runFrames_in_band)
qed

lemma handStep_idle_returns:
  assumes "\<not> grabFamily (istate (getInter s sd))"
  shows "\<exists>s'. handStep sd hand0 d w h t now s = Some s'"
proof (cases hand0)
  case None
  then show ?thesis by (simp add: handStep_def Let_def)
next
  case (Some hnd)
  have "istate (getInter s sd) = IDLE \<or> istate (getInter s sd) = TARGETING"
    using assms by (cases "istate (getInter s sd)") (simp_all add: grabFamily_def)
  then show ?thesis using Some by (simp add: handStep_target)
qed

lemma update_idle_returns:
  assumes "\<not> grabFamily (istate (getInter s Left))" and "\<not> grabFamily (istate (getInter s Right))"
  shows "\<exists>s'. update t hs pd cw ch ck s = Some s'"
proof (cases hs)
  case None
  then show ?thesis by (simp add: update_def Let_def)
next
  case (Some H)
  let ?s1 = "deferredSpawn t (enterPlayZone (computeLayout cw ch s))"
  let ?s0 = "?s1\<lparr>isDraggingPiece := False, draggedPiece := None\<rparr>"
  have g: "getInter ?s0 sd = getInter s sd" for sd
    by (simp add: getInter_dragReset getInter_deferredSpawn getInter_enterPlayZone
        getInter_computeLayout)
  have "\<not> grabFamily (istate (getInter ?s0 Left))" using assms(1) g by simp
  then obtain a where a: "handStep Left (H Left) (pd Left) cw ch t (ck Left) ?s0 = Some a"
    using handStep_idle_returns by blast
  have "getInter a Right = getInter ?s0 Right" using handStep_other[OF a] by simp
  then have "\<not> grabFamily (istate (getInter a Right))" using assms(2) g by simp
  then obtain b where b: "handStep Right (H Right) (pd Right) cw ch t (ck Right) a = Some b"
    using handStep_idle_returns by blast
  show ?thesis
    using a b Some by (simp add: update_def Let_def handleHandInteraction_def)
qed

lemma dragStep_free_returns:
  assumes "\<not> isPlayZoneGrab (getInter s sd)"
  shows "\<exists>s'. dragStep sd x y t s = Some s'"
  using assms by (simp add: dragStep_def Let_def getInter_setInter_same)

definition bandHand :: hand where
  "bandHand = \<lparr>wrist = (1 / 2, 9 / 10), thumbTip = (229 / 320, 5 / 9),
               indexTip = (261 / 320, 5 / 9), middleMCP = (1 / 2, 7 / 10)\<rparr>"

definition bandFrameRight :: frame where
  "bandFrameRight =
     (0, Some (\<lambda>sd. case sd of Left \<Rightarrow> None | Right \<Rightarrow> Some bandHand), (\<lambda>sd. 1 / 10), 1280, 720,
      (\<lambda>sd. 0))"

lemma spawnGrab_frame_returns:
  "\<exists>s'. updateFrame bandFrameRight spawnGrabGame = Some s'"
proof -
  let ?s1 = "deferredSpawn 0 (enterPlayZone (computeLayout 1280 720 spawnGrabGame))"
  let ?s0 = "?s1\<lparr>isDraggingPiece := False, draggedPiece := None\<rparr>"
  have g: "getInter ?s0 sd = getInter spawnGrabGame sd" for sd
    by (simp add: getInter_dragReset getInter_deferredSpawn getInter_enterPlayZone
        getInter_computeLayout)
  obtain a where a: "handStep Left None (1 / 10) 1280 720 0 0 ?s0 = Some a"
    by (simp add: handStep_def Let_def)
  have r: "getInter a Right = draggingRight False"
    using handStep_other[OF a, of Right] g[of Right] by (simp add: spawnGrabGame_fields)
  have st: "istate (getInter a Right) = GRABBING \<or> istate (getInter a Right) = DRAGGING"
    by (simp add: r draggingRight_fields)
  have nr: "\<not> (1 / 10 :: real) > RELEASE_THRESHOLD" by (simp add: RELEASE_THRESHOLD_def)
  have "\<not> isPlayZoneGrab (getInter (afterSmooth Right bandHand 1280 720 a) Right)"
    by (simp add: afterSmooth_inter r draggingRight_fields)
  then obtain b where b: "handStep Right (Some bandHand) (1 / 10) 1280 720 0 0 a = Some b"
    unfolding handStep_drag[OF st nr] using dragStep_free_returns by blast
  show ?thesis
    using a b
    by (simp add: updateFrame_def bandFrameRight_def update_def Let_def handleHandInteraction_def)
qed

theorem hysteresis_band_keeps_family_witness:
  "list_all (bandFrame Right) [bandFrameRight]
   \<and> grabFamily (istate (getInter spawnGrabGame Right))
   \<and> (\<exists>s'. runFrames (take 1 [bandFrameRight]) spawnGrabGame = Some s'
          \<and> grabFamily (istate (getInter s' Right))
          \<and> target (getInter s' Right) = Some 0)"
proof -
  have b: "\<forall>f \<in> set [bandFrameRight]. bandFrame Right f"
    by (simp add: bandFrame_def bandFrameRight_def inBand_def GRAB_THRESHOLD_def
        RELEASE_THRESHOLD_def)
  have g: "grabFamily (istate (getInter spawnGrabGame Right))"
    by (simp add: spawnGrabGame_fields draggingRight_fields grabFamily_def)
  obtain s' where s': "runFrames (take 1 [bandFrameRight]) spawnGrabGame = Some s'"
    using spawnGrab_frame_returns by auto
  have "grabFamily (istate (getInter s' Right)) \<and> target (getInter s' Right) = Some 0"
    using hysteresis_band_keeps_family[OF b s'] g
    by (simp add: spawnGrabGame_fields draggingRight_fields)
  then show ?thesis using b g s' by (simp add: list_all_iff)
qed

section \<open>The hold invariant\<close>

text \<open>
  The invariant. \<open>holdOK ty n h\<close>: the stack of hold \<open>h\<close> is within capacity, every piece in it
  has the type of the tag (\<open>ty\<close> gives the type behind a reference) and is an allocated
  reference (below \<open>n\<close>), and an empty stack has no tag. \<open>gameInv\<close> adds that the active piece
  and the two hands' targets are allocated references, so that \<open>spawnPiece\<close> never overwrites a
  piece that something still refers to.
\<close>

definition holdOK :: "(ref \<Rightarrow> tetromino) \<Rightarrow> ref \<Rightarrow> hold \<Rightarrow> bool" where
  "holdOK ty n h =
     (length (pieces h) \<le> MAX_PER_HOLD
      \<and> (\<forall>r \<in> set (pieces h). htype h = Some (ty r) \<and> r < n)
      \<and> (pieces h = [] \<longrightarrow> htype h = None))"

definition typesOf :: "game \<Rightarrow> ref \<Rightarrow> tetromino" where
  "typesOf s = (\<lambda>r. ptype (store s r))"

definition gameInv :: "game \<Rightarrow> bool" where
  "gameInv s =
     (list_all (holdOK (typesOf s) (nextRef s)) (holds s)
      \<and> (\<forall>r. currentPiece s = Some r \<longrightarrow> r < nextRef s)
      \<and> (\<forall>r. target (interLeft s) = Some r \<longrightarrow> r < nextRef s)
      \<and> (\<forall>r. target (interRight s) = Some r \<longrightarrow> r < nextRef s))"

lemma gameInv_target:
  "gameInv s \<Longrightarrow> target (getInter s sd) = Some r \<Longrightarrow> r < nextRef s"
  by (cases sd) (simp_all add: gameInv_def getInter_def)

lemma holdOK_geom [simp]:
  "holdOK ty n (h\<lparr>hx := a\<rparr>) = holdOK ty n h"
  "holdOK ty n (h\<lparr>hy := b\<rparr>) = holdOK ty n h"
  "holdOK ty n (h\<lparr>isTargeted := c\<rparr>) = holdOK ty n h"
  by (simp_all add: holdOK_def)

lemma typesOf_updPiece:
  "(\<And>p. ptype (f p) = ptype p) \<Longrightarrow> typesOf (updPiece r f s) = typesOf s"
  by (rule ext) (simp add: typesOf_def updPiece_def)

lemma gameInv_updPiece:
  assumes "\<And>p. ptype (f p) = ptype p"
  shows "gameInv (updPiece r f s) = gameInv s"
  by (simp add: gameInv_def typesOf_updPiece[OF assms] updPiece_fields)

lemma typesOf_setInter: "typesOf (setInter sd i s) = typesOf s"
  by (rule ext) (simp add: typesOf_def setInter_fields)

lemma gameInv_setInter:
  assumes "gameInv s" and "\<And>r. target i = Some r \<Longrightarrow> r < nextRef s"
  shows "gameInv (setInter sd i s)"
  using assms by (cases sd) (auto simp: gameInv_def setInter_def typesOf_def)

lemma gameInv_setInter_same_target:
  assumes "gameInv s" and "target i = target (getInter s sd) \<or> target i = None"
  shows "gameInv (setInter sd i s)"
  using assms(1)
proof (rule gameInv_setInter)
  fix r assume "target i = Some r"
  then show "r < nextRef s" using assms gameInv_target[of s sd r] by auto
qed

lemma holdOK_mono:
  assumes "holdOK ty n h" and "\<And>r. r < n \<Longrightarrow> ty' r = ty r" and "n \<le> n'"
  shows "holdOK ty' n' h"
  using assms by (auto simp: holdOK_def)

lemma gameInv_spawnPiece:
  assumes "gameInv s"
  shows "gameInv (spawnPiece s)"
proof -
  have t: "\<And>r. r < nextRef s \<Longrightarrow> typesOf (spawnPiece s) r = typesOf s r"
    by (simp add: typesOf_def spawnPiece_def)
  have "list_all (holdOK (typesOf (spawnPiece s)) (Suc (nextRef s))) (holds s)"
    unfolding list_all_iff
  proof
    fix h assume "h \<in> set (holds s)"
    then have "holdOK (typesOf s) (nextRef s) h"
      using assms by (simp add: gameInv_def list_all_iff)
    then show "holdOK (typesOf (spawnPiece s)) (Suc (nextRef s)) h"
      by (rule holdOK_mono) (simp_all add: t)
  qed
  then show ?thesis
    using assms by (auto simp: gameInv_def spawnPiece_def dest: less_SucI)
qed

lemma gameInv_board:
  "gameInv (s\<lparr>board := b\<rparr>) = gameInv s"
  by (simp add: gameInv_def typesOf_def)

lemma gameInv_lockPiece: "gameInv (lockPiece s) = gameInv s"
  by (simp add: lockPiece_def gameInv_board split: option.splits)

lemma gameInv_clearLines: "gameInv (clearLines s) = gameInv s"
  by (simp add: clearLines_def gameInv_board)

lemma gameInv_incY: "gameInv (incY r s) = gameInv s"
  by (simp add: incY_def gameInv_updPiece)

lemma gameInv_dropPiece: "gameInv s \<Longrightarrow> gameInv (dropPiece s)"
  by (auto simp: dropPiece_def Let_def gameInv_incY gameInv_updPiece gameInv_spawnPiece
      gameInv_clearLines gameInv_lockPiece split: option.splits)

lemma gameInv_dropBy: "gameInv (dropBy k r s) = gameInv s"
  by (simp add: dropBy_def gameInv_updPiece)

lemma gameInv_hardDrop:
  assumes "hardDrop s = Some s'" and "gameInv s"
  shows "gameInv s'"
proof (cases "currentPiece s")
  case None
  then show ?thesis using assms by (simp add: hardDrop_def)
next
  case (Some r)
  then obtain s1 where s1: "hardDropLoop s = Some s1" "s' = spawnPiece (clearLines (lockPiece s1))"
    using assms(1) by (auto simp: hardDrop_def split: bind_splits)
  obtain k where "s1 = dropBy k r s" using hardDropLoop_result[OF s1(1)] Some by auto
  then show ?thesis
    using s1(2) assms(2)
    by (simp add: gameInv_spawnPiece gameInv_clearLines gameInv_lockPiece gameInv_dropBy)
qed

lemma ptype_rotateObj: "ptype (rotateObj b p) = ptype p"
  by (simp add: rotateObj_cases rotatedAt_def)

lemma gameInv_rotatePiece: "gameInv (rotatePiece s p) = gameInv s"
  by (simp add: rotatePiece_def gameInv_updPiece ptype_rotateObj split: option.splits)

lemma list_all_upd:
  "list_all P xs \<Longrightarrow> P y \<Longrightarrow> list_all P (xs[i := y])"
  using set_update_subset_insert[of xs i y] by (auto simp: list_all_iff)

lemma holdOK_removeFrom:
  assumes "holdOK ty n h"
  shows "holdOK ty n (removeFrom piece h)"
proof -
  have "length (remove1 piece (pieces h)) \<le> length (pieces h)"
    by (simp add: length_remove1)
  moreover have "set (remove1 piece (pieces h)) \<subseteq> set (pieces h)"
    by (rule set_remove1_subset)
  ultimately show ?thesis
    using assms by (auto simp: holdOK_def removeFrom_def Let_def)
qed

lemma canAdd_removeFrom: "canAdd h t \<Longrightarrow> canAdd (removeFrom piece h) t"
proof -
  assume a: "canAdd h t"
  have "length (remove1 piece (pieces h)) \<le> length (pieces h)"
    by (simp add: length_remove1)
  then show ?thesis using a by (auto simp: canAdd_def removeFrom_def Let_def)
qed

lemma removeFromHoldList_length: "length (removeFromHoldList piece hs) = length hs"
  by (induction hs) simp_all

lemma removeFromHoldList_nth:
  "i < length hs \<Longrightarrow>
   removeFromHoldList piece hs ! i = hs ! i \<or> removeFromHoldList piece hs ! i = removeFrom piece (hs ! i)"
proof (induction hs arbitrary: i)
  case Nil
  then show ?case by simp
next
  case (Cons h hs)
  then show ?case by (cases i) auto
qed

lemma removeFromHoldList_ok:
  "list_all (holdOK ty n) hs \<Longrightarrow> list_all (holdOK ty n) (removeFromHoldList piece hs)"
  by (induction hs) (simp_all add: holdOK_removeFrom)

lemma holdOK_push:
  assumes "holdOK ty n h" and "canAdd h (ty piece)" and "piece < n"
  shows "holdOK ty n (h\<lparr>pieces := pieces h @ [piece], htype := Some (ty piece)\<rparr>)"
proof -
  have len: "length (pieces h) < MAX_PER_HOLD" using assms(2) by (simp add: canAdd_def)
  have ty: "\<forall>r \<in> set (pieces h). ty r = ty piece"
  proof
    fix r assume r: "r \<in> set (pieces h)"
    then have "htype h = Some (ty r)" using assms(1) by (simp add: holdOK_def)
    then show "ty r = ty piece" using assms(2) by (auto simp: canAdd_def)
  qed
  show ?thesis using assms(1,3) len ty by (auto simp: holdOK_def)
qed

lemma gameInv_removeFromHolds: "gameInv s \<Longrightarrow> gameInv (removeFromHolds s piece)"
  by (simp add: gameInv_def removeFromHolds_def typesOf_def removeFromHoldList_ok)

lemma gameInv_pushHold:
  assumes "gameInv s" and "i < length (holds s)"
    and "canAdd (holds s ! i) (ptype (store s piece))" and "piece < nextRef s"
  shows "gameInv (pushHold i piece s)"
proof -
  have "holdOK (typesOf s) (nextRef s) (holds s ! i)"
    using assms(1,2) by (simp add: gameInv_def list_all_length)
  then have "holdOK (typesOf s) (nextRef s)
      ((holds s ! i)\<lparr>pieces := pieces (holds s ! i) @ [piece], htype := Some (typesOf s piece)\<rparr>)"
    using assms(3,4) by (intro holdOK_push) (simp_all add: typesOf_def)
  then show ?thesis
    using assms(1) by (simp add: gameInv_def pushHold_def typesOf_def list_all_upd)
qed

lemma gameInv_swapCurrent:
  assumes "gameInv s" and "j < length (holds s)"
  shows "gameInv (swapCurrent j s)"
proof (cases "currentPiece s")
  case None
  then show ?thesis using assms by (simp add: swapCurrent_def)
next
  case (Some c)
  let ?s1 = "updPiece c (\<lambda>p. p\<lparr>inPlayZone := False\<rparr>) s"
  have c: "c < nextRef s" using assms(1) Some by (simp add: gameInv_def)
  have i1: "gameInv ?s1" using assms(1) by (simp add: gameInv_updPiece)
  have "canAdd (holds s ! j) (ptype (store s c)) \<Longrightarrow> gameInv (pushHold j c ?s1)"
    using i1 assms(2) c by (intro gameInv_pushHold) (simp_all add: updPiece_fields)
  then show ?thesis using Some assms(1) by (simp add: swapCurrent_def)
qed

lemma gameInv_handleDrop:
  assumes "gameInv s" and "piece < nextRef s"
  shows "gameInv (handleDrop now piece x y s)"
proof (cases "firstHoldAt s x y")
  case (Some i)
  have i: "i < length (holds s)" using Some by (simp add: firstHoldAt_Some)
  show ?thesis
  proof (cases "canAdd (holds s ! i) (ptype (store s piece))")
    case False
    then show ?thesis using Some assms(1) by (simp add: handleDrop_def)
  next
    case True
    let ?s1 = "if currentPiece s = Some piece
               then s\<lparr>currentPiece := None, lastHoldTime := now, pendingSpawn := True\<rparr>
               else removeFromHolds s piece"
    let ?s2 = "updPiece piece (\<lambda>p. p\<lparr>inPlayZone := False\<rparr>) ?s1"
    have i1: "gameInv ?s1"
      using assms(1) by (simp add: gameInv_removeFromHolds) (simp add: gameInv_def typesOf_def)
    have l1: "i < length (holds ?s1)"
      using i by (simp add: removeFromHolds_def removeFromHoldList_length)
    have c1: "canAdd (holds ?s1 ! i) (ptype (store ?s1 piece))"
      using True removeFromHoldList_nth[OF i, of piece]
      by (auto simp: removeFromHolds_def canAdd_removeFrom)
    have n1: "piece < nextRef ?s1" using assms(2) by (simp add: removeFromHolds_def)
    have "gameInv (pushHold i piece ?s2)"
      using i1 l1 c1 n1
      by (intro gameInv_pushHold) (simp_all add: gameInv_updPiece updPiece_fields)
    then show ?thesis using Some True by (simp add: handleDrop_def Let_def)
  qed
next
  case None
  show ?thesis
  proof (cases "inSpawnZone s x y")
    case False
    then show ?thesis using None assms(1) by (simp add: handleDrop_def)
  next
    case True
    show ?thesis
    proof (cases "findHoldContaining s piece")
      case None': None
      then show ?thesis using None True assms(1) by (simp add: handleDrop_def)
    next
      case (Some j)
      have j: "j < length (holds s)"
        using Some by (auto simp: findHoldContaining_def find_Some_iff)
      let ?s1 = "s\<lparr>holds := (holds s)[j := removeFrom piece (holds s ! j)]\<rparr>"
      have "holdOK (typesOf s) (nextRef s) (holds s ! j)"
        using assms(1) j by (simp add: gameInv_def list_all_length)
      then have i1: "gameInv ?s1"
        using assms(1) by (simp add: gameInv_def typesOf_def list_all_upd holdOK_removeFrom)
      have i2: "gameInv (swapCurrent j ?s1)"
        using i1 j by (intro gameInv_swapCurrent) simp_all
      have n2: "nextRef (swapCurrent j ?s1) = nextRef s"
        by (simp add: swapCurrent_def pushHold_def updPiece_def split: option.splits)
      have i3: "gameInv ((swapCurrent j ?s1)\<lparr>currentPiece := Some piece\<rparr>)"
        using i2 assms(2) n2 by (simp add: gameInv_def typesOf_def)
      show ?thesis
        using None True Some i3 by (simp add: handleDrop_def Let_def gameInv_updPiece)
    qed
  qed
qed

lemma nearerTop_ref:
  assumes "\<forall>r \<in> set (pieces hold). r < n"
    and "\<And>p d z. acc = Some (p, d, z) \<Longrightarrow> p < n"
    and "nearerTop s x y hold acc = Some (p, d, z)"
  shows "p < n"
proof (cases "pieces hold = []")
  case True
  then show ?thesis using assms(2,3) by (simp add: nearerTop_def)
next
  case False
  then have "last (pieces hold) < n" using assms(1) by simp
  then show ?thesis
    using assms(2,3) False
    by (auto simp: nearerTop_def Let_def split: option.splits if_splits)
qed

lemma fold_nearerTop_ref:
  assumes "\<forall>h \<in> set hs. \<forall>r \<in> set (pieces h). r < n"
    and "\<And>p d z. acc = Some (p, d, z) \<Longrightarrow> p < n"
    and "fold (nearerTop s x y) hs acc = Some (p, d, z)"
  shows "p < n"
  using assms
proof (induction hs arbitrary: acc)
  case Nil
  then show ?case by simp
next
  case (Cons h hs)
  have "\<And>p d z. nearerTop s x y h acc = Some (p, d, z) \<Longrightarrow> p < n"
    using nearerTop_ref[of h n acc s x y] Cons.prems(1,2) by simp
  then show ?case using Cons.IH[of "nearerTop s x y h acc"] Cons.prems(1,3) by simp
qed

lemma findNearest_ref:
  assumes "gameInv s" and "findNearestGrabbablePiece s x y = Some (p, d, z)"
  shows "p < nextRef s"
proof -
  have h: "\<forall>h \<in> set (holds s). \<forall>r \<in> set (pieces h). r < nextRef s"
    using assms(1) by (auto simp: gameInv_def list_all_iff holdOK_def)
  show ?thesis
  proof (rule fold_nearerTop_ref[OF h _ assms(2)[unfolded findNearestGrabbablePiece_def]])
    fix p d z
    assume "(case currentPiece s of None \<Rightarrow> None
             | Some c \<Rightarrow> Some (c, hypot2 (x - screenX (store s c)) (y - screenY (store s c)),
                              inPlayZone (store s c))) = Some (p, d, z)"
    then show "p < nextRef s"
      using assms(1) by (auto simp: gameInv_def split: option.splits)
  qed
qed

lemma retarget_ref:
  assumes "gameInv s" and "target (retarget s x y i) = Some r"
  shows "r < nextRef s"
  using assms findNearest_ref[of s x y]
  by (auto simp: retarget_def split: option.splits prod.splits if_splits)

lemma gameInv_targetStep:
  assumes "gameInv s"
  shows "gameInv (targetStep sd hnd x y g t s)"
proof -
  let ?i1 = "retarget s x y (getInter s sd)"
  have r: "\<And>r. target ?i1 = Some r \<Longrightarrow> r < nextRef s"
    using assms by (rule retarget_ref)
  have a: "gameInv (setInter sd ?i1 s)" using assms r by (rule gameInv_setInter)
  show ?thesis
  proof (cases "target ?i1")
    case None
    then show ?thesis using a by (simp add: targetStep_def Let_def)
  next
    case (Some t0)
    have b: "gameInv (setInter sd (?i1\<lparr>istate := GRABBING, grabOffset := go, grabAngle := ga,
                  grabX := gx, lastMoveTime := lm\<rparr>) s1)"
      if "gameInv s1" "nextRef s1 = nextRef s" for go ga gx lm s1
      using that r by (intro gameInv_setInter) simp_all
    show ?thesis
      using Some a assms
      by (auto simp: targetStep_def Let_def gameInv_updPiece updPiece_fields intro!: b)
  qed
qed

lemma nextRef_handleDrop: "nextRef (handleDrop now piece x y s) = nextRef s"
  by (simp add: handleDrop_def Let_def pushHold_def updPiece_def removeFromHolds_def
      swapCurrent_def split: option.splits)

lemma gameInv_releaseStep:
  assumes "gameInv s" and "releaseStep sd x y now s = Some s'"
  shows "gameInv s'"
proof -
  obtain s1 where s1: "gameInv s1"
      "s' = setInter sd ((getInter s1 sd)\<lparr>istate := IDLE, target := None, grabOffset := None,
                 grabAngle := None, isPlayZoneGrab := False, currentRotation := None\<rparr>) s1"
  proof (cases "target (getInter s sd)")
    case None
    then show ?thesis
      using assms that gameInv_hardDrop[of s]
      by (auto simp: releaseStep_def Let_def split: if_splits bind_splits)
  next
    case (Some piece)
    have p: "piece < nextRef s" using assms(1) Some by (rule gameInv_target)
    have "gameInv (handleDrop now piece x y (updPiece piece (\<lambda>p. p\<lparr>isGrabbed := False\<rparr>) s))"
      using assms(1) p by (intro gameInv_handleDrop) (simp_all add: gameInv_updPiece updPiece_fields)
    then show ?thesis
      using assms that Some gameInv_hardDrop[of s]
      by (auto simp: releaseStep_def Let_def split: if_splits bind_splits)
  qed
  show ?thesis unfolding s1(2) using s1(1) by (rule gameInv_setInter) simp
qed

lemma gameInv_moveGesture: "gameInv s \<Longrightarrow> gameInv (moveGesture sd a b x t s)"
  by (auto simp: moveGesture_def Let_def gameInv_updPiece getInter_updPiece
      intro!: gameInv_setInter_same_target split: option.splits)

lemma gameInv_rotateGesture:
  assumes "gameInv s"
  shows "gameInv (rotateGesture sd a b dx dy px0 py0 t s)"
proof -
  have st: "gameInv (setInter sd i s1)"
    if "gameInv s1" "target i = target (getInter s1 sd)" for i s1
    using that by (intro gameInv_setInter_same_target) simp_all
  show ?thesis
    using assms
    by (auto simp: rotateGesture_def Let_def gameInv_rotatePiece getInter_rotatePiece
        getInter_setInter_same intro!: st)
qed

lemma gameInv_drag_flags:
  "gameInv (s\<lparr>isDraggingPiece := a, draggedPiece := b\<rparr>) = gameInv s"
  by (simp add: gameInv_def typesOf_def)

lemma gameInv_freeDrag: "gameInv s \<Longrightarrow> gameInv (freeDrag sd x y s)"
  by (auto simp: freeDrag_def Let_def gameInv_updPiece gameInv_drag_flags
      split: option.splits prod.splits)

lemma gameInv_clearCenter:
  "gameInv s \<Longrightarrow> gameInv (setInter sd ((getInter s sd)\<lparr>pieceCenter := None\<rparr>) s)"
  by (intro gameInv_setInter_same_target) simp_all

lemma gameInv_dragStep:
  assumes "gameInv s" and "dragStep sd x y t s = Some s'"
  shows "gameInv s'"
proof -
  let ?s0 = "setInter sd ((getInter s sd)\<lparr>istate := DRAGGING\<rparr>) s"
  have i0: "gameInv ?s0" using assms(1) by (intro gameInv_setInter_same_target) simp_all
  have A: "gameInv (setInter sd ((getInter (moveGesture sd a b x t ?s0) sd)\<lparr>pieceCenter := None\<rparr>)
      (moveGesture sd a b x t ?s0))" for a b
    using i0 by (intro gameInv_clearCenter gameInv_moveGesture)
  have B: "gameInv (rotateGesture sd a b dx dy px0 py0 t ?s0)" for a b dx dy px0 py0
    using i0 by (rule gameInv_rotateGesture)
  have C: "gameInv (moveGesture sd a b x t (rotateGesture sd a' b' dx dy px0 py0 t ?s0))"
    for a b a' b' dx dy px0 py0
    using B by (rule gameInv_moveGesture)
  have D: "gameInv (freeDrag sd x y ?s0)" using i0 by (rule gameInv_freeDrag)
  show ?thesis
    using assms(2) A B C D
    by (auto simp: dragStep_def Let_def split: option.splits if_splits)
qed

lemma gameInv_afterSmooth: "gameInv s \<Longrightarrow> gameInv (afterSmooth sd hnd w h s)"
  unfolding afterSmooth_def by (intro gameInv_setInter_same_target) simp_all

lemma gameInv_handStep:
  assumes "gameInv s" and "handStep sd hand0 d w h t now s = Some s'"
  shows "gameInv s'"
proof (cases hand0)
  case None
  have "gameInv (setInter sd ((getInter s sd)\<lparr>istate := IDLE, target := None, grabAngle := None\<rparr>) s1)"
    if "gameInv s1" for s1
    using that by (rule gameInv_setInter) simp
  then show ?thesis
    using assms None
    by (auto simp: handStep_def Let_def gameInv_updPiece split: option.splits)
next
  case (Some hnd)
  have a: "gameInv (afterSmooth sd hnd w h s)" using assms(1) by (rule gameInv_afterSmooth)
  consider (t) "istate (getInter s sd) = IDLE \<or> istate (getInter s sd) = TARGETING"
    | (r) "istate (getInter s sd) = GRABBING \<or> istate (getInter s sd) = DRAGGING" "d > RELEASE_THRESHOLD"
    | (d) "istate (getInter s sd) = GRABBING \<or> istate (getInter s sd) = DRAGGING" "\<not> d > RELEASE_THRESHOLD"
    by (cases "istate (getInter s sd)") auto
  then show ?thesis
  proof cases
    case t
    then show ?thesis using assms(2) Some a by (auto simp: handStep_target gameInv_targetStep)
  next
    case r
    then show ?thesis
      using assms(2) Some gameInv_releaseStep[OF a] by (simp add: handStep_release)
  next
    case d
    then show ?thesis
      using assms(2) Some gameInv_dragStep[OF a] by (simp add: handStep_drag)
  qed
qed

lemma fold_gameInv:
  assumes "\<And>x s. gameInv s \<Longrightarrow> gameInv (f x s)" and "gameInv s"
  shows "gameInv (fold f xs s)"
  using assms(2) by (induction xs arbitrary: s) (simp_all add: assms(1))

lemma gameInv_easeGrabbed: "gameInv s \<Longrightarrow> gameInv (easeGrabbed r s)"
  by (simp add: easeGrabbed_def gameInv_updPiece Let_def)

lemma gameInv_holds_map:
  assumes "\<And>h. holdOK (typesOf s) (nextRef s) (f h) = holdOK (typesOf s) (nextRef s) h"
  shows "gameInv (s\<lparr>holds := map f (holds s)\<rparr>) = gameInv s"
  by (simp add: gameInv_def typesOf_def list_all_iff assms[unfolded typesOf_def])

lemma gameInv_holdFeedback: "gameInv (holdFeedback s) = gameInv s"
  by (auto simp: holdFeedback_def gameInv_holds_map split: option.splits prod.splits bool.splits)

lemma layoutHolds_ok:
  "list_all (holdOK ty n) (layoutHolds a b hs) = list_all (holdOK ty n) hs"
proof -
  have "list_all (holdOK ty n)
      (map (\<lambda>(i, hold). if i < 3
          then hold\<lparr>hx := a, hy := 60 + real i * (HOLD_SLOT_HEIGHT + 20), isTargeted := False\<rparr>
          else hold\<lparr>hx := b, hy := 60 + (real i - 3) * (HOLD_SLOT_HEIGHT + 20), isTargeted := False\<rparr>)
        (enumerate k hs)) = list_all (holdOK ty n) hs" for k
    by (induction hs arbitrary: k) simp_all
  then show ?thesis by (simp add: layoutHolds_def)
qed

lemma gameInv_computeLayout: "gameInv (computeLayout cw ch s) = gameInv s"
  by (simp add: computeLayout_def Let_def gameInv_def typesOf_def layoutHolds_ok)

lemma gameInv_enterPlayZone: "gameInv (enterPlayZone s) = gameInv s"
  by (simp add: enterPlayZone_def gameInv_updPiece split: option.splits)

lemma gameInv_deferredSpawn: "gameInv s \<Longrightarrow> gameInv (deferredSpawn t s)"
proof -
  assume a: "gameInv s"
  have "gameInv ((spawnPiece s)\<lparr>pendingSpawn := False\<rparr>)"
    using gameInv_spawnPiece[OF a] by (simp add: gameInv_def typesOf_def)
  then show ?thesis using a by (simp add: deferredSpawn_def)
qed

lemma gameInv_autoDrop: "gameInv s \<Longrightarrow> gameInv (autoDrop t s)"
proof -
  assume a: "gameInv s"
  have "gameInv (s\<lparr>lastDropTime := t\<rparr>)" using a by (simp add: gameInv_def typesOf_def)
  then have "gameInv (dropPiece (s\<lparr>lastDropTime := t\<rparr>))" by (rule gameInv_dropPiece)
  then show ?thesis using a by (simp add: autoDrop_def split: option.splits)
qed

lemma gameInv_placeCurrent: "gameInv (placeCurrent s) = gameInv s"
  by (simp add: placeCurrent_def Let_def gameInv_updPiece split: option.splits)

lemma gameInv_placeHeld: "gameInv s \<Longrightarrow> gameInv (placeHeld hold s)"
  unfolding placeHeld_def
  by (rule fold_gameInv) (auto simp: Let_def gameInv_updPiece split: prod.splits)

lemma gameInv_updatePiecePositions: "gameInv s \<Longrightarrow> gameInv (updatePiecePositions s)"
  unfolding updatePiecePositions_def
  by (rule fold_gameInv) (simp_all add: gameInv_placeHeld gameInv_placeCurrent)

lemma gameInv_handleHandInteraction:
  assumes "gameInv s" and "handleHandInteraction hs pd w h t ck s = Some s'"
  shows "gameInv s'"
proof -
  let ?s0 = "s\<lparr>isDraggingPiece := False, draggedPiece := None\<rparr>"
  obtain s1 s2 where s1: "handStep Left (hs Left) (pd Left) w h t (ck Left) ?s0 = Some s1"
    and s2: "handStep Right (hs Right) (pd Right) w h t (ck Right) s1 = Some s2"
    and s': "s' = holdFeedback (fold easeGrabbed (allPieces s2) s2)"
    using assms(2) by (auto simp: handleHandInteraction_def split: bind_splits)
  have "gameInv ?s0" using assms(1) by (simp add: gameInv_drag_flags)
  then have "gameInv s1" using s1 by (rule gameInv_handStep)
  then have "gameInv s2" using s2 by (rule gameInv_handStep)
  then have "gameInv (fold easeGrabbed (allPieces s2) s2)"
    by (intro fold_gameInv gameInv_easeGrabbed)
  then show ?thesis unfolding s' by (simp add: gameInv_holdFeedback)
qed

lemma gameInv_update:
  assumes "gameInv s" and "update t hs pd cw ch ck s = Some s'"
  shows "gameInv s'"
proof -
  let ?s1 = "deferredSpawn t (enterPlayZone (computeLayout cw ch s))"
  have i1: "gameInv ?s1"
    using assms(1) by (intro gameInv_deferredSpawn) (simp add: gameInv_enterPlayZone gameInv_computeLayout)
  obtain s2 where s2: "gameInv s2" "s' = updatePiecePositions (autoDrop t s2)"
  proof (cases hs)
    case None
    then show ?thesis using assms(2) i1 that by (simp add: update_def Let_def)
  next
    case (Some H)
    then obtain x where x: "handleHandInteraction H pd cw ch t ck ?s1 = Some x"
        "s' = updatePiecePositions (autoDrop t x)"
      using assms(2) by (auto simp: update_def Let_def split: bind_splits)
    have "gameInv x" using i1 x(1) by (rule gameInv_handleHandInteraction)
    then show ?thesis using x(2) that by blast
  qed
  show ?thesis
    unfolding s2(2) using s2(1) by (intro gameInv_updatePiecePositions gameInv_autoDrop)
qed

lemma gameInv_newGame: "gameInv (newGame draws)"
  unfolding newGame_def
  by (rule gameInv_spawnPiece)
     (simp add: gameInv_def holdOK_def emptyHold_def idleInteraction_def MAX_PER_HOLD_def)

text \<open>The states reachable from a new game by \<open>update\<close> calls that return.\<close>

inductive reachable :: "game \<Rightarrow> bool" where
  init: "reachable (newGame draws)"
| step: "reachable s \<Longrightarrow> updateFrame f s = Some s' \<Longrightarrow> reachable s'"

lemma reachable_gameInv: "reachable s \<Longrightarrow> gameInv s"
proof (induction rule: reachable.induct)
  case (init draws)
  show ?case by (rule gameInv_newGame)
next
  case (step s f s')
  obtain t hs pd cw ch ck where f: "f = (t, hs, pd, cw, ch, ck)" by (cases f) auto
  show ?case using step.IH step.hyps(2) gameInv_update by (auto simp: updateFrame_def f)
qed

text \<open>
  Claim C2. In every state reachable from a new game by any sequence of \<open>update\<close> calls, with
  any hand inputs, every hold's stack has at most \<open>MAX_PER_HOLD\<close> pieces, every piece in it has
  the type of the hold's type tag, and an empty hold has the tag \<open>null\<close>.
\<close>

theorem hold_slots_within_capacity_and_single_typed:
  assumes "reachable s" and "h \<in> set (holds s)"
  shows "length (pieces h) \<le> MAX_PER_HOLD
       \<and> (\<forall>r \<in> set (pieces h). htype h = Some (ptype (store s r)))
       \<and> (pieces h = [] \<longrightarrow> htype h = None)"
proof -
  have "holdOK (typesOf s) (nextRef s) h"
    using reachable_gameInv[OF assms(1)] assms(2) by (simp add: gameInv_def list_all_iff)
  then show ?thesis by (simp add: holdOK_def typesOf_def)
qed

section \<open>A run that fills a hold\<close>

text \<open>
  A concrete run of two frames on a 1280 by 720 canvas. In \<open>grabFrame\<close> the right hand pinches
  at the screen position of the new piece and grabs it; in \<open>dropFrame now\<close> (timestamp 100, the
  clock reading \<open>now\<close>) it opens over hold 0 and the piece goes into that hold. \<open>afterGrab\<close> and
  \<open>afterDrop now\<close> are the states after the first and the second frame.
\<close>

definition pinchHand :: hand where
  "pinchHand = \<lparr>wrist = (1, 3 / 10), thumbTip = (1, 0), indexTip = (1, 0), middleMCP = (1, 1 / 10)\<rparr>"

definition releaseHand :: hand where
  "releaseHand = \<lparr>wrist = (4 / 5, 9 / 10), thumbTip = (299 / 384 - 1 / 10, 95 / 216),
                  indexTip = (299 / 384 + 1 / 10, 95 / 216), middleMCP = (4 / 5, 7 / 10)\<rparr>"

definition rightOnly :: "hand \<Rightarrow> hand_side \<Rightarrow> hand option" where
  "rightOnly hnd sd = (case sd of Left \<Rightarrow> None | Right \<Rightarrow> Some hnd)"

definition grabFrame :: frame where
  "grabFrame = (0, Some (rightOnly pinchHand), (\<lambda>sd. 0), 1280, 720, (\<lambda>sd. 0))"

definition dropFrame :: "real \<Rightarrow> frame" where
  "dropFrame now = (100, Some (rightOnly releaseHand), (\<lambda>sd. 1 / 5), 1280, 720, (\<lambda>sd. now))"

definition afterGrab :: game where
  "afterGrab =
     updPiece 0 (\<lambda>p. p\<lparr>isGrabbed := True\<rparr>)
       (setInter Right
          (idleInteraction\<lparr>istate := GRABBING, target := Some 0, smoothedPos := Some (0, 0),
                           grabOffset := Some (0, 0), grabAngle := calculateWristAngle pinchHand\<rparr>)
          (computeLayout 1280 720 (newGame (sconst Tet_T))))"

lemmas game_defs =
  update_def computeLayout_def layoutHolds_def enterPlayZone_def deferredSpawn_def
  handleHandInteraction_def handStep_def smoothMid_def targetStep_def retarget_def
  findNearestGrabbablePiece_def nearerTop_def hypot2_def getInter_def setInter_def updPiece_def
  allPieces_def easeGrabbed_def holdFeedback_def getHandPosition_def autoDrop_def dropPiece_def
  updatePiecePositions_def placeCurrent_def placeHeld_def
  newGame_def spawnPiece_def newPiece_def emptyHold_def idleInteraction_def
  centerX0_def spawnY_def width0_def rightOnly_def
  COLS_def ROWS_def CELL_SIZE_def SPAWN_TICKS_def SPAWN_ZONE_HEIGHT_def HOLD_SLOT_WIDTH_def
  HOLD_SLOT_HEIGHT_def GRAB_THRESHOLD_def RELEASE_THRESHOLD_def HOLD_SPAWN_DELAY_def

lemma grab_frame_result:
  "updateFrame grabFrame (newGame (sconst Tet_T)) = Some afterGrab"
  by (simp add: updateFrame_def grabFrame_def pinchHand_def afterGrab_def game_defs Let_def)

lemmas drop_defs =
  releaseStep_def handleDrop_def firstHoldAt_def inHoldBounds_def canAdd_def pushHold_def
  removeFromHolds_def inSpawnZone_def MAX_PER_HOLD_def

definition afterDrop :: "real \<Rightarrow> game" where
  "afterDrop now =
     updPiece 0 (\<lambda>p. p\<lparr>isGrabbed := False, screenX := 85, screenY := 100,
                        targetScreenX := 85, targetScreenY := 100\<rparr>)
       (pushHold 0 0
          ((setInter Right (idleInteraction\<lparr>smoothedPos := Some (85, 95)\<rparr>)
              (computeLayout 1280 720 (newGame (sconst Tet_T))))
             \<lparr>currentPiece := None, lastHoldTime := now, pendingSpawn := True\<rparr>))"

lemma drop_frame_result:
  "updateFrame (dropFrame now) afterGrab = Some (afterDrop now)"
  by (simp add: updateFrame_def dropFrame_def releaseHand_def afterGrab_def afterDrop_def
      game_defs drop_defs Let_def)

lemma afterDrop_holds:
  "holds (afterDrop now) =
     [\<lparr>pieces = [0], htype = Some Tet_T, hx = 40, hy = 60, isTargeted = False, side = Left\<rparr>,
      \<lparr>pieces = [], htype = None, hx = 40, hy = 150, isTargeted = False, side = Left\<rparr>,
      \<lparr>pieces = [], htype = None, hx = 40, hy = 240, isTargeted = False, side = Left\<rparr>,
      \<lparr>pieces = [], htype = None, hx = 1150, hy = 60, isTargeted = False, side = Right\<rparr>,
      \<lparr>pieces = [], htype = None, hx = 1150, hy = 150, isTargeted = False, side = Right\<rparr>,
      \<lparr>pieces = [], htype = None, hx = 1150, hy = 240, isTargeted = False, side = Right\<rparr>]"
  by (simp add: afterDrop_def updPiece_def pushHold_def setInter_def layout_1280_holds
      layout_1280_fields)
     (simp add: computeLayout_def newGame_def spawnPiece_def newPiece_def Let_def)

lemma afterDrop_fields:
  "currentPiece (afterDrop now) = None"
  "pendingSpawn (afterDrop now)"
  "lastHoldTime (afterDrop now) = now"
  "nextRef (afterDrop now) = 1"
  "ptype (store (afterDrop now) 0) = Tet_T"
  by (simp_all add: afterDrop_def updPiece_def pushHold_def setInter_def computeLayout_def
      newGame_def spawnPiece_def newPiece_def Let_def)

lemma afterDrop_reachable: "reachable (afterDrop now)"
proof -
  have "reachable afterGrab"
    using reachable.step[OF reachable.init grab_frame_result] .
  then show ?thesis using drop_frame_result by (rule reachable.step)
qed

theorem hold_slots_within_capacity_and_single_typed_witness:
  "reachable (afterDrop 100)
   \<and> holds (afterDrop 100) ! 0 \<in> set (holds (afterDrop 100))
   \<and> pieces (holds (afterDrop 100) ! 0) = [0]
   \<and> length (pieces (holds (afterDrop 100) ! 0)) \<le> MAX_PER_HOLD
   \<and> htype (holds (afterDrop 100) ! 0) = Some (ptype (store (afterDrop 100) 0))"
proof -
  have m: "holds (afterDrop 100) ! 0 \<in> set (holds (afterDrop 100))"
    by (simp add: afterDrop_holds)
  have p: "pieces (holds (afterDrop 100) ! 0) = [0]"
    by (simp add: afterDrop_holds)
  show ?thesis
    using hold_slots_within_capacity_and_single_typed[OF afterDrop_reachable m]
      afterDrop_reachable m p
    by simp
qed

section \<open>The delayed spawn after a hold\<close>

lemma fold_currentPiece:
  assumes "\<And>x s. currentPiece (f x s) = currentPiece s"
  shows "currentPiece (fold f xs s) = currentPiece s"
  by (induction xs arbitrary: s) (simp_all add: assms)

lemma currentPiece_updatePiecePositions:
  "currentPiece (updatePiecePositions s) = currentPiece s"
proof -
  have a: "currentPiece (placeHeld hold s1) = currentPiece s1" for hold s1
    unfolding placeHeld_def
    by (rule fold_currentPiece) (simp add: Let_def updPiece_fields split: prod.splits)
  have b: "currentPiece (placeCurrent s) = currentPiece s"
    by (simp add: placeCurrent_def Let_def updPiece_fields split: option.splits)
  show ?thesis
    unfolding updatePiecePositions_def by (simp add: fold_currentPiece a b)
qed

lemma currentPiece_autoDrop_none:
  "currentPiece s = None \<Longrightarrow> currentPiece (autoDrop t s) = None"
  by (simp add: autoDrop_def)

lemma currentPiece_autoDrop_fresh:
  assumes "currentPiece s = Some r" and "py (store s r) < 0"
  shows "currentPiece (autoDrop t s) = Some r"
  using assms
  by (simp add: autoDrop_def dropPiece_def Let_def incY_def updPiece_fields)

lemma update_null_hands_spawn:
  assumes "currentPiece s = None" and "pendingSpawn s"
  shows "map_option currentPiece (update t None pd cw ch ck s)
     = Some (if t - lastHoldTime s \<ge> HOLD_SPAWN_DELAY then Some (nextRef s) else None)"
proof -
  let ?s0 = "enterPlayZone (computeLayout cw ch s)"
  have f: "currentPiece ?s0 = None" "pendingSpawn ?s0" "lastHoldTime ?s0 = lastHoldTime s"
      "nextRef ?s0 = nextRef s"
    using assms by (simp_all add: enterPlayZone_def computeLayout_def Let_def)
  show ?thesis
  proof (cases "t - lastHoldTime s \<ge> HOLD_SPAWN_DELAY")
    case True
    then have d: "deferredSpawn t ?s0 = (spawnPiece ?s0)\<lparr>pendingSpawn := False\<rparr>"
      using f by (simp add: deferredSpawn_def)
    have "currentPiece (deferredSpawn t ?s0) = Some (nextRef s)"
        "py (store (deferredSpawn t ?s0) (nextRef s)) < 0"
      unfolding d using f(4) by (simp_all add: spawnPiece_def newPiece_def spawnY_def SPAWN_TICKS_def)
    then have "currentPiece (autoDrop t (deferredSpawn t ?s0)) = Some (nextRef s)"
      by (rule currentPiece_autoDrop_fresh)
    then show ?thesis
      using True by (simp add: update_def Let_def currentPiece_updatePiecePositions)
  next
    case False
    then have "deferredSpawn t ?s0 = ?s0" by (simp add: deferredSpawn_def f)
    then show ?thesis
      using False f(1)
      by (simp add: update_def Let_def currentPiece_updatePiecePositions currentPiece_autoDrop_none)
  qed
qed

text \<open>
  Claim C9 at a failing input. The drop into the hold happens in the \<open>update\<close> call with
  timestamp 100 while \<open>performance.now()\<close> reads 5000: the recorded hold time is 5000, the clock
  reading, not the timestamp. An \<open>update\<close> with timestamp 2100, which is 2000 ms after the
  timestamp of the drop, spawns nothing; the new piece comes with the timestamp 7000.
\<close>

theorem hold_time_is_a_clock_reading:
  "updateFrame (dropFrame 5000) afterGrab = Some (afterDrop 5000)
   \<and> fst (dropFrame 5000) = 100
   \<and> lastHoldTime (afterDrop 5000) = 5000
   \<and> currentPiece (afterDrop 5000) = None
   \<and> map_option currentPiece (update 2100 None pd cw ch ck (afterDrop 5000)) = Some None
   \<and> map_option currentPiece (update 6999 None pd cw ch ck (afterDrop 5000)) = Some None
   \<and> map_option currentPiece (update 7000 None pd cw ch ck (afterDrop 5000)) = Some (Some 1)"
proof -
  have u: "map_option currentPiece (update t None pd cw ch ck (afterDrop 5000))
      = Some (if t - 5000 \<ge> HOLD_SPAWN_DELAY then Some 1 else None)" for t
    using update_null_hands_spawn[of "afterDrop 5000" t pd cw ch ck]
    by (simp only: afterDrop_fields)
  have a: "map_option currentPiece (update 2100 None pd cw ch ck (afterDrop 5000)) = Some None"
    unfolding u by (simp add: HOLD_SPAWN_DELAY_def)
  have b: "map_option currentPiece (update 6999 None pd cw ch ck (afterDrop 5000)) = Some None"
    unfolding u by (simp add: HOLD_SPAWN_DELAY_def)
  have c: "map_option currentPiece (update 7000 None pd cw ch ck (afterDrop 5000)) = Some (Some 1)"
    unfolding u by (simp add: HOLD_SPAWN_DELAY_def)
  have d: "fst (dropFrame 5000) = 100" by (simp add: dropFrame_def)
  show ?thesis
    using drop_frame_result[of 5000] a b c d afterDrop_fields(1,3)[of 5000] by blast
qed

section \<open>A grabbed piece and the gravity tick\<close>

































end
